theory Spec2Isabelle
  imports Main "HOL-Library.AList"
begin

section \<open>Values of the request bodies\<close>

text \<open>
  The handlers work on what pydantic's \<^verbatim>\<open>.dict()\<close> gives for a JSON body: nested
  dicts with string keys, lists and scalars, plus the members of the two string enums of
  \<^verbatim>\<open>app/utils/constants.py\<close>. A dict keeps its insertion order, so it is an
  association list; a Python dict never holds a key twice, which the results assume where
  they need it (\<open>distinct (map fst d)\<close>).
  A float is carried as the text \<^verbatim>\<open>str()\<close> prints for it: the code only prints
  floats and tests them for truth, it never computes with them.
  No value is a pydantic model: \<^verbatim>\<open>MetaData\<close> declares only the enum field
  \<^verbatim>\<open>type\<close>, every other field is an extra taken from the JSON as it is, so
  the \<^verbatim>\<open>isinstance(_, BaseModel)\<close> branches of \<^verbatim>\<open>common.py\<close> are
  never entered on these values.
\<close>

datatype pyval =
    PNone
  | PBool bool
  | PInt int
  | PFloat string
  | PStr string
  | PEnum string
  | PList "pyval list"
  | PDict "(string \<times> pyval) list"

type_synonym pydict = "(string \<times> pyval) list"

text \<open>\<^verbatim>\<open>OBJECT_TYPE.ALL\<close> is \<open>ALL_TYPES\<close> here.\<close>

datatype OBJECT_TYPE = PRODUCTS | BLOGS | STORES | ALL_TYPES

fun object_type_value :: "OBJECT_TYPE \<Rightarrow> string" where
  "object_type_value PRODUCTS = ''products''"
| "object_type_value BLOGS = ''blogs''"
| "object_type_value STORES = ''stores''"
| "object_type_value ALL_TYPES = ''all''"

text \<open>\<^verbatim>\<open>d.get(k, None)\<close>: the value under the key, \<^verbatim>\<open>None\<close> without it.\<close>

definition dict_get :: "pydict \<Rightarrow> string \<Rightarrow> pyval" where
  "dict_get d k = (case map_of d k of None \<Rightarrow> PNone | Some v \<Rightarrow> v)"

text \<open>Python's truth value of an object, as \<^verbatim>\<open>or\<close> and \<^verbatim>\<open>if\<close> test it.\<close>

fun truthy :: "pyval \<Rightarrow> bool" where
  "truthy PNone = False"
| "truthy (PBool b) = b"
| "truthy (PInt i) = (i \<noteq> 0)"
| "truthy (PFloat s) = (s \<noteq> ''0.0'' \<and> s \<noteq> ''-0.0'')"
| "truthy (PStr s) = (s \<noteq> [])"
| "truthy (PEnum s) = (s \<noteq> [])"
| "truthy (PList xs) = (xs \<noteq> [])"
| "truthy (PDict kvs) = (kvs \<noteq> [])"

text \<open>\<^verbatim>\<open>a or b\<close>: \<^verbatim>\<open>a\<close> when it is true, else \<^verbatim>\<open>b\<close>.\<close>

definition py_or :: "pyval \<Rightarrow> pyval \<Rightarrow> pyval" where
  "py_or a b = (if truthy a then a else b)"

subsection \<open>\<^verbatim>\<open>str()\<close>\<close>

function digits :: "nat \<Rightarrow> string" where
  "digits n = (if n < 10 then [''0123456789'' ! n]
               else digits (n div 10) @ [''0123456789'' ! (n mod 10)])"
  by pat_completeness auto
termination
  by (relation "measure id") auto

declare digits.simps [simp del]

definition str_int :: "int \<Rightarrow> string" where
  "str_int i = (if i < 0 then CHR ''-'' # digits (nat (- i)) else digits (nat i))"

text \<open>
  \<^verbatim>\<open>str(v)\<close>. The text of a list or a dict is Python's \<^verbatim>\<open>repr\<close> of it, which is
  not modelled: \<open>repr\<close> is a parameter.
\<close>

fun py_str :: "(pyval \<Rightarrow> string) \<Rightarrow> pyval \<Rightarrow> string" where
  "py_str repr PNone = ''None''"
| "py_str repr (PBool b) = (if b then ''True'' else ''False'')"
| "py_str repr (PInt i) = str_int i"
| "py_str repr (PFloat s) = s"
| "py_str repr (PStr s) = s"
| "py_str repr (PEnum s) = s"
| "py_str repr (PList xs) = repr (PList xs)"
| "py_str repr (PDict kvs) = repr (PDict kvs)"

section \<open>Namespace of a request (\<^verbatim>\<open>ingest_routes.py\<close>, \<^verbatim>\<open>search_routes.py\<close>)\<close>

text \<open>
  \<^verbatim>\<open>request.location_id or 'orphan'\<close>: \<^verbatim>\<open>location_id\<close> is an
  \<^verbatim>\<open>Optional[str]\<close>; \<^verbatim>\<open>None\<close> and the empty string are both false.
\<close>

definition location_or_orphan :: "string option \<Rightarrow> string" where
  "location_or_orphan location_id =
     (case location_id of None \<Rightarrow> ''orphan''
      | Some l \<Rightarrow> (if l = [] then ''orphan'' else l))"

text \<open>
  Lines 41 and 65 of \<^verbatim>\<open>ingest_routes.py\<close>:
  \<^verbatim>\<open>request.type if request.type != OBJECT_TYPE.PRODUCTS
     else f"{request.location_id or 'orphan'}-{request.type}"\<close>
\<close>

definition ingest_namespace :: "OBJECT_TYPE \<Rightarrow> string option \<Rightarrow> string" where
  "ingest_namespace type location_id =
     (if type \<noteq> PRODUCTS then object_type_value type
      else location_or_orphan location_id @ ''-'' @ object_type_value type)"

text \<open>\<^verbatim>\<open>f"{request.location_id}"\<close>: the text of an optional string.\<close>

definition str_opt :: "string option \<Rightarrow> string" where
  "str_opt s = (case s of None \<Rightarrow> ''None'' | Some t \<Rightarrow> t)"

text \<open>
  Lines 27 and 64 to 66 of \<^verbatim>\<open>search_routes.py\<close>. \<^verbatim>\<open>request.namespace\<close> is an
  \<^verbatim>\<open>Optional[OBJECT_TYPE]\<close>; \<^verbatim>\<open>all\<close> stands for the three types.
  \<^verbatim>\<open>namespace_str = str(namespace)
  namespace_str = str(f"{request.location_id}-{namespace_str}"
                      if namespace_str == OBJECT_TYPE.PRODUCTS else namespace_str)\<close>
\<close>

definition query_namespaces :: "OBJECT_TYPE option \<Rightarrow> OBJECT_TYPE option list" where
  "query_namespaces namespace =
     (if namespace \<noteq> Some ALL_TYPES then [namespace] else [Some PRODUCTS, Some BLOGS, Some STORES])"

definition search_namespace :: "OBJECT_TYPE option \<Rightarrow> string option \<Rightarrow> string" where
  "search_namespace namespace location_id =
     (let namespace_str = (case namespace of None \<Rightarrow> ''None'' | Some t \<Rightarrow> object_type_value t)
      in if namespace_str = object_type_value PRODUCTS
         then str_opt location_id @ ''-'' @ namespace_str
         else namespace_str)"

section \<open>Identity of a vector (\<^verbatim>\<open>ingest_routes.py\<close>, lines 37 and 85)\<close>

text \<open>
  \<^verbatim>\<open>str(metadata.get("id",None) or metadata.get("databaseId",None)
        or metadata.get("zip",None))\<close>
\<close>

definition vector_id :: "(pyval \<Rightarrow> string) \<Rightarrow> pydict \<Rightarrow> string" where
  "vector_id repr metadata =
     py_str repr (py_or (dict_get metadata ''id'')
                   (py_or (dict_get metadata ''databaseId'') (dict_get metadata ''zip'')))"

text \<open>
  The identity key as the data model words it: the value of the first of \<^verbatim>\<open>id\<close>,
  \<^verbatim>\<open>databaseId\<close>, \<^verbatim>\<open>zip\<close> that is present and not null.
\<close>

fun first_non_null :: "pydict \<Rightarrow> string list \<Rightarrow> pyval option" where
  "first_non_null d [] = None"
| "first_non_null d (k # ks) =
     (case map_of d k of
        None \<Rightarrow> first_non_null d ks
      | Some v \<Rightarrow> (if v = PNone then first_non_null d ks else Some v))"

definition identity_key :: "pydict \<Rightarrow> pyval option" where
  "identity_key metadata = first_non_null metadata [''id'', ''databaseId'', ''zip'']"

section \<open>Metadata sanitizer (\<^verbatim>\<open>app/utils/common.py\<close>)\<close>

text \<open>
  \<^verbatim>\<open>items.update(other)\<close>: each pair of \<open>other\<close> in order; a key that
  \<open>items\<close> holds keeps its place and takes the new value, a new key goes to the end.
\<close>

definition dict_update :: "pydict \<Rightarrow> pydict \<Rightarrow> pydict" where
  "dict_update items other = foldl (\<lambda>d (k, v). AList.update k v d) items other"

text \<open>
  \<^verbatim>\<open>sanitize_metadata(data, parent_key='', sep='_')\<close>. \<open>sanitize_items\<close> is the
  loop over \<^verbatim>\<open>data.items()\<close> and \<open>sanitize_elems\<close> the loop over
  \<^verbatim>\<open>enumerate(data)\<close>, each with the dict \<^verbatim>\<open>items\<close> built so far. The
  branch \<^verbatim>\<open>isinstance(data, (dict, list))\<close> under \<^verbatim>\<open>else\<close> is dead
  code: dicts and lists are taken by the two branches before it.
\<close>

fun sanitize_metadata :: "pyval \<Rightarrow> string \<Rightarrow> string \<Rightarrow> pydict"
  and sanitize_items :: "(string \<times> pyval) list \<Rightarrow> string \<Rightarrow> string \<Rightarrow> pydict \<Rightarrow> pydict"
  and sanitize_elems :: "pyval list \<Rightarrow> nat \<Rightarrow> string \<Rightarrow> string \<Rightarrow> pydict \<Rightarrow> pydict"
where
  "sanitize_metadata (PDict kvs) parent_key sep = sanitize_items kvs parent_key sep []"
| "sanitize_metadata (PList xs) parent_key sep = sanitize_elems xs 0 parent_key sep []"
| "sanitize_metadata PNone parent_key sep = []"
| "sanitize_metadata (PBool b) parent_key sep = [(parent_key, PBool b)]"
| "sanitize_metadata (PInt i) parent_key sep = [(parent_key, PInt i)]"
| "sanitize_metadata (PFloat f) parent_key sep = [(parent_key, PFloat f)]"
| "sanitize_metadata (PStr s) parent_key sep = [(parent_key, PStr s)]"
| "sanitize_metadata (PEnum e) parent_key sep = [(parent_key, PEnum e)]"
| "sanitize_items [] parent_key sep items = items"
| "sanitize_items ((key, val) # kvs) parent_key sep items =
     sanitize_items kvs parent_key sep
       (dict_update items
          (sanitize_metadata val
             (if parent_key \<noteq> [] then parent_key @ sep @ key else key) sep))"
| "sanitize_elems [] i parent_key sep items = items"
| "sanitize_elems (val # xs) i parent_key sep items =
     sanitize_elems xs (Suc i) parent_key sep
       (dict_update items
          (sanitize_metadata val (parent_key @ sep @ str_int (int i)) sep))"

subsection \<open>What the sanitizer is to return\<close>

text \<open>A scalar that is not null: what a flat map may hold.\<close>

fun scalar :: "pyval \<Rightarrow> bool" where
  "scalar PNone = False"
| "scalar (PList xs) = False"
| "scalar (PDict kvs) = False"
| "scalar v = True"

definition flat :: "pydict \<Rightarrow> bool" where
  "flat d = list_all (\<lambda>(k, v). scalar v) d"

text \<open>\<^verbatim>\<open>sep.join(parts)\<close>.\<close>

fun join :: "string \<Rightarrow> string list \<Rightarrow> string" where
  "join sep [] = []"
| "join sep [x] = x"
| "join sep (x # y # ys) = x @ sep @ join sep (y # ys)"

text \<open>
  The leaves of a value in traversal order: each scalar that is not null, with the keys
  and list indices of its ancestors from the root down, as texts.
\<close>

fun leaves :: "pyval \<Rightarrow> (string list \<times> pyval) list"
  and leaves_items :: "(string \<times> pyval) list \<Rightarrow> (string list \<times> pyval) list"
  and leaves_elems :: "pyval list \<Rightarrow> nat \<Rightarrow> (string list \<times> pyval) list"
where
  "leaves (PDict kvs) = leaves_items kvs"
| "leaves (PList xs) = leaves_elems xs 0"
| "leaves PNone = []"
| "leaves (PBool b) = [([], PBool b)]"
| "leaves (PInt i) = [([], PInt i)]"
| "leaves (PFloat f) = [([], PFloat f)]"
| "leaves (PStr s) = [([], PStr s)]"
| "leaves (PEnum e) = [([], PEnum e)]"
| "leaves_items [] = []"
| "leaves_items ((key, val) # kvs) =
     map (\<lambda>(p, x). (key # p, x)) (leaves val) @ leaves_items kvs"
| "leaves_elems [] i = []"
| "leaves_elems (val # xs) i =
     map (\<lambda>(p, x). (str_int (int i) # p, x)) (leaves val) @ leaves_elems xs (Suc i)"

text \<open>
  The claim on keys: every pair of the result is a leaf of the input under the join of
  its ancestors' keys and indices.
\<close>

definition joined_leaves :: "string \<Rightarrow> pyval \<Rightarrow> pydict" where
  "joined_leaves sep data = map (\<lambda>(p, x). (join sep p, x)) (leaves data)"

definition keys_joined :: "string \<Rightarrow> pyval \<Rightarrow> pydict \<Rightarrow> bool" where
  "keys_joined sep data d = list_all (\<lambda>kv. kv \<in> set (joined_leaves sep data)) d"

text \<open>
  The inputs on which the keys are such joins: anything but a list at the root, with no
  dict under an empty key of the root dict. Every metadata record is a dict.
\<close>

fun is_dict :: "pyval \<Rightarrow> bool" where
  "is_dict (PDict kvs) = True"
| "is_dict v = False"

fun key_regular :: "pyval \<Rightarrow> bool" where
  "key_regular (PList xs) = False"
| "key_regular (PDict kvs) = list_all (\<lambda>(k, v). k \<noteq> [] \<or> \<not> is_dict v) kvs"
| "key_regular v = True"

section \<open>Values-only text (\<^verbatim>\<open>app/utils/common.py\<close>, \<^verbatim>\<open>generate_text_service.py\<close>)\<close>

text \<open>
  \<^verbatim>\<open>s.strip()\<close> removes white space at both ends and \<^verbatim>\<open>s.isdigit()\<close> asks for
  a non-empty text of digits. Characters are bytes here: the white space is ASCII's
  (codes 9 to 13, 28 to 32) and the digits are \<^verbatim>\<open>0\<close> to \<^verbatim>\<open>9\<close>.
\<close>

definition is_space :: "char \<Rightarrow> bool" where
  "is_space c = (let n = (of_char c :: nat) in (9 \<le> n \<and> n \<le> 13) \<or> (28 \<le> n \<and> n \<le> 32))"

definition strip :: "string \<Rightarrow> string" where
  "strip s = rev (dropWhile is_space (rev (dropWhile is_space s)))"

definition isdigit :: "string \<Rightarrow> bool" where
  "isdigit s = (s \<noteq> [] \<and> list_all (\<lambda>c. c \<in> set ''0123456789'') s)"

text \<open>
  \<^verbatim>\<open>is_nonempty(v)\<close>: not \<^verbatim>\<open>None\<close>, not a blank string, not an empty list or
  dict. A member of a string enum is a string.
\<close>

fun is_nonempty :: "pyval \<Rightarrow> bool" where
  "is_nonempty PNone = False"
| "is_nonempty (PStr s) = (strip s \<noteq> [])"
| "is_nonempty (PEnum s) = (strip s \<noteq> [])"
| "is_nonempty (PList xs) = (xs \<noteq> [])"
| "is_nonempty (PDict kvs) = (kvs \<noteq> [])"
| "is_nonempty v = True"

text \<open>
  \<^verbatim>\<open>collect_values(obj)\<close>. Every call makes a list \<^verbatim>\<open>value_parts\<close> of its own;
  the calls on the values of a dict and on the elements of a list return theirs to a
  caller that drops them (\<open>dropped\<close> below). The \<^verbatim>\<open>return\<close> without a value in
  the last branch returns \<^verbatim>\<open>None\<close>, which is \<open>None\<close> here.
\<close>

fun collect_values :: "(pyval \<Rightarrow> string) \<Rightarrow> pyval \<Rightarrow> string list option"
  and collect_dict_values :: "(pyval \<Rightarrow> string) \<Rightarrow> (string \<times> pyval) list \<Rightarrow> string list option list"
  and collect_list_values :: "(pyval \<Rightarrow> string) \<Rightarrow> pyval list \<Rightarrow> string list option list"
where
  "collect_values repr PNone = Some []"
| "collect_values repr (PEnum val) =
     Some (if is_nonempty (PStr val) then [py_str repr (PStr val)] else [])"
| "collect_values repr (PDict kvs) = (let dropped = collect_dict_values repr kvs in Some [])"
| "collect_values repr (PList xs) = (let dropped = collect_list_values repr xs in Some [])"
| "collect_values repr obj =
     (if is_nonempty obj
      then (let s = strip (py_str repr obj)
            in if isdigit s \<and> length s > 4 then None else Some [s])
      else Some [])"
| "collect_dict_values repr [] = []"
| "collect_dict_values repr ((k, v) # kvs) = collect_values repr v # collect_dict_values repr kvs"
| "collect_list_values repr [] = []"
| "collect_list_values repr (v # xs) = collect_values repr v # collect_list_values repr xs"

datatype error = Error string

text \<open>
  The end of \<^verbatim>\<open>product_to_semantic_texts\<close> and of \<^verbatim>\<open>post_to_semantic_texts\<close>:
  \<^verbatim>\<open>value_parts = collect_values(product)
  values_string = " ".join(value_parts)
  return description + " " + values_string\<close>
  \<open>description\<close> is the sentence the lines before build from the fixed fields; joining
  \<^verbatim>\<open>None\<close> raises a \<^verbatim>\<open>TypeError\<close>.
\<close>

definition semantic_text :: "(pyval \<Rightarrow> string) \<Rightarrow> string \<Rightarrow> pyval \<Rightarrow> error + string" where
  "semantic_text repr description obj =
     (case collect_values repr obj of
        None \<Rightarrow> Inl (Error ''TypeError: can only join an iterable'')
      | Some value_parts \<Rightarrow> Inr (description @ '' '' @ join '' '' value_parts))"

text \<open>
  The values-only list as the specification words it: every non-empty scalar leaf in
  traversal order, lists and maps recursed, an enum by its value, digit strings of more
  than 4 digits left out.
\<close>

fun leaf_values_spec :: "(pyval \<Rightarrow> string) \<Rightarrow> pyval \<Rightarrow> string list"
  and leaf_values_dict_spec :: "(pyval \<Rightarrow> string) \<Rightarrow> (string \<times> pyval) list \<Rightarrow> string list"
  and leaf_values_list_spec :: "(pyval \<Rightarrow> string) \<Rightarrow> pyval list \<Rightarrow> string list"
where
  "leaf_values_spec repr PNone = []"
| "leaf_values_spec repr (PDict kvs) = leaf_values_dict_spec repr kvs"
| "leaf_values_spec repr (PList xs) = leaf_values_list_spec repr xs"
| "leaf_values_spec repr v =
     (if is_nonempty v \<and> \<not> (isdigit (strip (py_str repr v)) \<and> length (strip (py_str repr v)) > 4)
      then [strip (py_str repr v)] else [])"
| "leaf_values_dict_spec repr [] = []"
| "leaf_values_dict_spec repr ((k, v) # kvs) = leaf_values_spec repr v @ leaf_values_dict_spec repr kvs"
| "leaf_values_list_spec repr [] = []"
| "leaf_values_list_spec repr (v # xs) = leaf_values_spec repr v @ leaf_values_list_spec repr xs"

section \<open>Vector store service (\<^verbatim>\<open>app/services/pinecone_service.py\<close>)\<close>

text \<open>
  A vector as the handlers build it. The embedding is whatever the embedding service
  returned; the code passes it on and never looks into it, so its type is a parameter.
\<close>

record 'e vector =
  vec_id :: string
  vec_values :: 'e
  vec_metadata :: pydict

text \<open>
  The index of the vector store is an external collaborator: \<open>index_upsert\<close> is its
  answer to \<^verbatim>\<open>index.upsert(vectors=batch, namespace=namespace)\<close>, an acknowledgment
  or an exception. A call is recorded with its batch and the namespace it was given
  (\<open>None\<close> when the call passes none); the list of the calls made so far is the state.
\<close>

type_synonym 'e upsert_call = "'e vector list \<times> string option"

type_synonym ('e, 'r) index_upsert = "'e vector list \<Rightarrow> string option \<Rightarrow> error + 'r"

record 'r upsert_result =
  total_upserted :: nat
  batches :: "'r list"

text \<open>
  \<^verbatim>\<open>range(start, stop, step)\<close> for a step that is not zero, as the \<^verbatim>\<open>for\<close> loop
  runs through it. The range is made once, before the loop.
\<close>

function py_range :: "nat \<Rightarrow> nat \<Rightarrow> nat \<Rightarrow> nat list" where
  "py_range start stop step =
     (if step = 0 \<or> stop \<le> start then [] else start # py_range (start + step) stop step)"
  by pat_completeness auto
termination
  by (relation "measure (\<lambda>(start, stop, step). stop - start)") auto

declare py_range.simps [simp del]

text \<open>\<^verbatim>\<open>if namespace\<close>: a namespace that is \<^verbatim>\<open>None\<close> or empty is not passed on.\<close>

definition given_namespace :: "string option \<Rightarrow> string option" where
  "given_namespace namespace =
     (case namespace of None \<Rightarrow> None | Some n \<Rightarrow> (if n = [] then None else Some n))"

text \<open>
  The loop of \<^verbatim>\<open>PineconeService.upsert\<close> over the indices \<open>is\<close> still to visit:
  \<^verbatim>\<open>batch = vectors[i:i + batch_size]
  batch_num = i//batch_size + 1
  batch_size = len(batch)
  response = self.index.upsert(vectors=batch, namespace=namespace) if namespace
             else self.index.upsert(vectors=batch)
  responses.append(response)\<close>
  The loop assigns \<^verbatim>\<open>batch_size\<close>, so the next slice is cut with the length of this
  batch. \<^verbatim>\<open>batch_num\<close> is only logged. An exception of the index leaves the loop.
\<close>

fun upsert_loop ::
  "('e, 'r) index_upsert \<Rightarrow> 'e vector list \<Rightarrow> string option \<Rightarrow> nat list \<Rightarrow> nat \<Rightarrow> 'r list \<Rightarrow>
   'e upsert_call list \<Rightarrow> (error + 'r list) \<times> 'e upsert_call list"
where
  "upsert_loop index_upsert vectors namespace [] batch_size responses calls =
     (Inr responses, calls)"
| "upsert_loop index_upsert vectors namespace (i # is) batch_size responses calls =
     (let batch = take batch_size (drop i vectors);
          batch_size = length batch;
          call = (batch, given_namespace namespace)
      in case index_upsert batch (given_namespace namespace) of
           Inl e \<Rightarrow> (Inl e, calls @ [call])
         | Inr response \<Rightarrow>
             upsert_loop index_upsert vectors namespace is batch_size (responses @ [response])
               (calls @ [call]))"

text \<open>
  \<^verbatim>\<open>PineconeService.upsert(vectors, namespace)\<close>: the result or the exception, which
  is logged and raised again, and the calls made.
\<close>

definition upsert ::
  "('e, 'r) index_upsert \<Rightarrow> 'e vector list \<Rightarrow> string option \<Rightarrow> 'e upsert_call list \<Rightarrow>
   (error + 'r upsert_result) \<times> 'e upsert_call list"
where
  "upsert index_upsert vectors namespace calls =
     (let batch_size = 100;
          total_vectors = length vectors
      in case upsert_loop index_upsert vectors namespace (py_range 0 total_vectors batch_size)
                batch_size [] calls of
           (Inl e, calls') \<Rightarrow> (Inl e, calls')
         | (Inr responses, calls') \<Rightarrow>
             (Inr \<lparr>total_upserted = total_vectors, batches = responses\<rparr>, calls'))"

text \<open>
  The partition the claim speaks of: consecutive sublists of at most \<open>n\<close> elements, the
  last one shorter when the length is not a multiple of \<open>n\<close>.
\<close>

function chunks :: "nat \<Rightarrow> 'a list \<Rightarrow> 'a list list" where
  "chunks n xs = (if n = 0 \<or> xs = [] then [] else take n xs # chunks n (drop n xs))"
  by pat_completeness auto
termination
  by (relation "measure (\<lambda>(n, xs). length xs)") auto

declare chunks.simps [simp del]

section \<open>Batch ingestion (\<^verbatim>\<open>app/api/ingest_routes.py\<close>, \<^verbatim>\<open>batch_ingest_documents\<close>)\<close>

text \<open>
  The services a handler is given. \<open>generate_text\<close> is
  \<^verbatim>\<open>GenerateTextService.generate_text\<close> and \<open>generate_embedding\<close> is
  \<^verbatim>\<open>EmbeddingService.generate_embedding\<close>, a call to the embedding provider; each
  returns its value or raises.
\<close>

record 'e services =
  generate_text :: "pydict \<Rightarrow> OBJECT_TYPE \<Rightarrow> error + string"
  generate_embedding :: "string \<Rightarrow> error + 'e"

text \<open>
  \<^verbatim>\<open>process_metadata(metadata)\<close>, which a worker of the pool runs for one record: the
  vector it puts on the queue, or \<open>None\<close> when an exception was caught and logged and
  nothing was put.
\<close>

definition process_metadata ::
  "'e services \<Rightarrow> (pyval \<Rightarrow> string) \<Rightarrow> OBJECT_TYPE \<Rightarrow> pydict \<Rightarrow> 'e vector option"
where
  "process_metadata svc repr type metadata =
     (case generate_text svc metadata type of
        Inl e \<Rightarrow> None
      | Inr text \<Rightarrow>
          (case generate_embedding svc text of
             Inl e \<Rightarrow> None
           | Inr embedding \<Rightarrow>
               Some \<lparr>vec_id = vector_id repr metadata,
                     vec_values = embedding,
                     vec_metadata = sanitize_metadata (PDict metadata) [] ''_''\<rparr>))"

text \<open>The vectors the pool puts on the queue for a list of records, in the records' order.\<close>

definition produced ::
  "'e services \<Rightarrow> (pyval \<Rightarrow> string) \<Rightarrow> OBJECT_TYPE \<Rightarrow> pydict list \<Rightarrow> 'e vector list"
where
  "produced svc repr type metadata_list =
     List.map_filter (process_metadata svc repr type) metadata_list"

text \<open>
  What the consumer sees of the queue, call after call of
  \<^verbatim>\<open>vector_queue.get(timeout=1)\<close>: a vector, or \<^verbatim>\<open>queue.Empty\<close> after a second
  without one. The list holds the answers up to the last vector that is ever put; once
  the workers are done and the queue is drained every later call times out.
\<close>

datatype 'e poll = Got "'e vector" | Empty

fun gots :: "'e poll list \<Rightarrow> 'e vector list" where
  "gots [] = []"
| "gots (Got v # ps) = v # gots ps"
| "gots (Empty # ps) = gots ps"

datatype status = Running | Stopped | Raised error

record 'e consumer =
  queue_polls :: "'e poll list"
  vectors_to_upsert :: "'e vector list"
  total_processed :: nat
  index_calls :: "'e upsert_call list"
  thread_status :: status

text \<open>
  One pass through the body of \<^verbatim>\<open>while total_processed < len(metadata_list)\<close> in
  \<^verbatim>\<open>batch_upsert\<close>; \<open>n\<close> is \<^verbatim>\<open>len(metadata_list)\<close> and the batch size is 100.
  \<^verbatim>\<open>try:
      vector = vector_queue.get(timeout=1)
      vectors_to_upsert.append(vector)
      total_processed += 1
      if len(vectors_to_upsert) >= batch_size or total_processed == len(metadata_list):
          if vectors_to_upsert:
              pinecone_service.upsert(vectors=vectors_to_upsert, namespace=namespace)
              vectors_to_upsert = []
  except queue.Empty:
      if total_processed < len(metadata_list):
          continue
      break\<close>
  Only \<^verbatim>\<open>queue.Empty\<close> is caught: an exception of the upsert ends the thread.
\<close>

definition on_empty :: "nat \<Rightarrow> 'e consumer \<Rightarrow> 'e consumer" where
  "on_empty n c = (if total_processed c < n then c else c\<lparr>thread_status := Stopped\<rparr>)"

definition batch_upsert_pass ::
  "('e, 'r) index_upsert \<Rightarrow> nat \<Rightarrow> string \<Rightarrow> 'e consumer \<Rightarrow> 'e consumer"
where
  "batch_upsert_pass index_upsert n namespace c =
     (case queue_polls c of
        [] \<Rightarrow> on_empty n c
      | Empty # rest \<Rightarrow> on_empty n (c\<lparr>queue_polls := rest\<rparr>)
      | Got vector # rest \<Rightarrow>
          (let c1 = c\<lparr>queue_polls := rest,
                      vectors_to_upsert := vectors_to_upsert c @ [vector],
                      total_processed := total_processed c + 1\<rparr>
           in if length (vectors_to_upsert c1) \<ge> 100 \<or> total_processed c1 = n
              then (if vectors_to_upsert c1 \<noteq> []
                    then (case upsert index_upsert (vectors_to_upsert c1) (Some namespace) (index_calls c1) of
                            (Inl e, calls') \<Rightarrow> c1\<lparr>index_calls := calls', thread_status := Raised e\<rparr>
                          | (Inr r, calls') \<Rightarrow> c1\<lparr>index_calls := calls', vectors_to_upsert := []\<rparr>)
                    else c1)
              else c1))"

text \<open>
  The loop. It may run for ever, so it returns an option: \<open>None\<close> when it never ends.
\<close>

partial_function (option) batch_upsert ::
  "('e, 'r) index_upsert \<Rightarrow> nat \<Rightarrow> string \<Rightarrow> 'e consumer \<Rightarrow> 'e consumer option"
where
  "batch_upsert index_upsert n namespace c =
     (if thread_status c = Running \<and> total_processed c < n
      then batch_upsert index_upsert n namespace (batch_upsert_pass index_upsert n namespace c)
      else Some c)"

text \<open>The consumer as the thread starts it.\<close>

definition consumer_start :: "'e poll list \<Rightarrow> 'e consumer" where
  "consumer_start ps =
     \<lparr>queue_polls = ps, vectors_to_upsert = [], total_processed = 0, index_calls = [],
       thread_status = Running\<rparr>"

text \<open>All vectors the index was sent, batch after batch.\<close>

definition upserted :: "'e consumer \<Rightarrow> 'e vector list" where
  "upserted c = concat (map fst (index_calls c))"

text \<open>
  A consumer that has called the index with nothing yet and holds all it was given, \<open>g\<close>
  being the number of vectors that ever arrive.
\<close>

definition waiting :: "nat \<Rightarrow> 'e consumer \<Rightarrow> bool" where
  "waiting g c \<longleftrightarrow> index_calls c = [] \<and> thread_status c = Running \<and>
     total_processed c = length (vectors_to_upsert c) \<and>
     length (vectors_to_upsert c) + length (gots (queue_polls c)) = g"

section \<open>Single ingestion (\<^verbatim>\<open>app/api/ingest_routes.py\<close>, \<^verbatim>\<open>ingest_document\<close>)\<close>

record ingest_request =
  req_location_id :: "string option"
  req_id :: "string option"
  req_type :: OBJECT_TYPE
  req_metadata :: pydict

record status_response =
  resp_status :: string
  resp_message :: string

text \<open>\<^verbatim>\<open>HTTPException(status_code=500, detail=str(e))\<close>.\<close>

datatype http_error = HTTPException nat string

fun error_str :: "error \<Rightarrow> string" where
  "error_str (Error msg) = msg"

text \<open>
  \<^verbatim>\<open>ingest_document\<close> with the calls the index has been sent so far, which it returns
  with its answer. The body, all of it under one \<^verbatim>\<open>try\<close>:
  \<^verbatim>\<open>text = generate_text_service.generate_text(metadata, request.type)
  embedding = embedding_service.generate_embedding(text)
  vector = {"id": ..., "values": embedding, "metadata": sanitize_metadata(metadata)}
  namespace = ...
  # pinecone_service.upsert(vectors=[vector],namespace=namespace)
  logger.info("Upserting vector", namespace=namespace)
  logger.info("Successfully ingested document")
  return StatusResponse(status="success", message=f"{request.type} ingested successfully")\<close>
  The call of \<^verbatim>\<open>upsert\<close> is a comment.
\<close>

definition ingest_document ::
  "'e services \<Rightarrow> (pyval \<Rightarrow> string) \<Rightarrow> ingest_request \<Rightarrow> 'e upsert_call list \<Rightarrow>
   (http_error + status_response) \<times> 'e upsert_call list"
where
  "ingest_document svc repr request calls =
     (let metadata = req_metadata request in
      case generate_text svc metadata (req_type request) of
        Inl e \<Rightarrow> (Inl (HTTPException 500 (error_str e)), calls)
      | Inr text \<Rightarrow>
          (case generate_embedding svc text of
             Inl e \<Rightarrow> (Inl (HTTPException 500 (error_str e)), calls)
           | Inr embedding \<Rightarrow>
               (let vector = \<lparr>vec_id = vector_id repr metadata,
                                vec_values = embedding,
                                vec_metadata = sanitize_metadata (PDict metadata) [] ''_''\<rparr>;
                    namespace = ingest_namespace (req_type request) (req_location_id request)
                in (Inr \<lparr>resp_status = ''success'',
                         resp_message = object_type_value (req_type request) @ '' ingested successfully''\<rparr>,
                    calls))))"

text \<open>
  What the claim asks of a successful request: the call
  \<^verbatim>\<open>pinecone_service.upsert(vectors=[vector], namespace=namespace)\<close>, which sends the
  index one batch.
\<close>

definition expected_upsert_call ::
  "(pyval \<Rightarrow> string) \<Rightarrow> ingest_request \<Rightarrow> 'e \<Rightarrow> 'e upsert_call"
where
  "expected_upsert_call repr request embedding =
     ([\<lparr>vec_id = vector_id repr (req_metadata request),
        vec_values = embedding,
        vec_metadata = sanitize_metadata (PDict (req_metadata request)) [] ''_''\<rparr>],
      given_namespace (Some (ingest_namespace (req_type request) (req_location_id request))))"

section \<open>Semantic cache (\<^verbatim>\<open>app/services/cache_service.py\<close>)\<close>

text \<open>
  The cache client is an external collaborator. A search answers \<^verbatim>\<open>None\<close> or an
  object whose \<^verbatim>\<open>data\<close> lists entries, each with the stored \<^verbatim>\<open>response\<close>; it
  is made with the configured similarity threshold. Both calls may raise.
\<close>

record cache_entry =
  entry_response :: string

record search_result =
  result_data :: "cache_entry list"

record lang_cache =
  lc_search :: "string \<Rightarrow> error + search_result option"
  lc_set :: "string \<Rightarrow> string \<Rightarrow> error + unit"

record cache_service =
  client :: "lang_cache option"

text \<open>
  \<^verbatim>\<open>CacheService.__init__\<close>: \<open>connect\<close> is what the constructor
  \<^verbatim>\<open>LangCache(server_url=..., cache_id=..., api_key=...)\<close> does, return a client or
  raise. The \<^verbatim>\<open>try\<close> around it and its \<^verbatim>\<open>except\<close> branch, which set
  \<^verbatim>\<open>self.client = None\<close>, are comments.
\<close>

definition CacheService_init :: "error + lang_cache \<Rightarrow> error + cache_service" where
  "CacheService_init connect =
     (case connect of Inl e \<Rightarrow> Inl e | Inr c \<Rightarrow> Inr \<lparr>client = Some c\<rparr>)"

text \<open>\<^verbatim>\<open>CacheService.get(query)\<close>.\<close>

definition CacheService_get :: "cache_service \<Rightarrow> string \<Rightarrow> search_result option" where
  "CacheService_get self query =
     (case client self of
        None \<Rightarrow> None
      | Some c \<Rightarrow>
          (case lc_search c query of
             Inl e \<Rightarrow> None
           | Inr value \<Rightarrow>
               (case value of
                  None \<Rightarrow> None
                | Some v \<Rightarrow> (if length (result_data v) \<noteq> 0 then Some v else None))))"

text \<open>
  \<^verbatim>\<open>CacheService.set(query, value)\<close>; \<open>json_dumps\<close> is \<^verbatim>\<open>json.dumps\<close>, which is
  called under the \<^verbatim>\<open>try\<close> too.
\<close>

definition CacheService_set ::
  "('v \<Rightarrow> error + string) \<Rightarrow> cache_service \<Rightarrow> string \<Rightarrow> 'v \<Rightarrow> bool"
where
  "CacheService_set json_dumps self query val =
     (case client self of
        None \<Rightarrow> False
      | Some c \<Rightarrow>
          (case json_dumps val of
             Inl e \<Rightarrow> False
           | Inr response \<Rightarrow>
               (case lc_set c query response of Inl e \<Rightarrow> False | Inr u \<Rightarrow> True)))"

section \<open>Search (\<^verbatim>\<open>app/api/search_routes.py\<close>, \<^verbatim>\<open>search_documents\<close>)\<close>

record search_request =
  sr_query :: string
  sr_top_k :: int
  sr_location_id :: "string option"
  sr_namespace :: "OBJECT_TYPE option"

record 'm search_response =
  results :: "'m list"
  query_rewritten :: "string option"
  total_results :: nat

text \<open>
  What the handler calls and does not hold itself: \<^verbatim>\<open>json.loads\<close>, the constructor
  of the pydantic model \<^verbatim>\<open>SearchMatch\<close> (it validates its three arguments and may
  raise), the embedding service, and the query of the index with the namespace it is
  given. \<open>'e\<close> is the embedding and \<open>'m\<close> a validated match.
\<close>

record ('e, 'm) search_env =
  json_loads :: "string \<Rightarrow> error + pyval"
  SearchMatch :: "pyval \<Rightarrow> pyval \<Rightarrow> pyval \<Rightarrow> error + 'm"
  embed :: "string \<Rightarrow> error + 'e"
  index_query :: "'e \<Rightarrow> int \<Rightarrow> string option \<Rightarrow> error + pyval list"

text \<open>
  The calls a request makes on the services, in order. The queries of the namespaces run
  in parallel; they are listed in the order the handler starts them.
\<close>

datatype 'e event =
    CacheGet string
  | GenerateEmbedding string
  | IndexQuery 'e int "string option"
  | CacheSetTask string "pyval list"

fun touches_backend :: "'e event \<Rightarrow> bool" where
  "touches_backend (GenerateEmbedding text) = True"
| "touches_backend (IndexQuery v k ns) = True"
| "touches_backend ev = False"

text \<open>
  \<^verbatim>\<open>cached_results and cached_results.data and cached_results.data[0].response\<close>: the
  stored response of the first entry when all three are true.
\<close>

definition stored_response :: "search_result option \<Rightarrow> string option" where
  "stored_response cached_results =
     (case cached_results of
        None \<Rightarrow> None
      | Some v \<Rightarrow>
          (case result_data v of
             [] \<Rightarrow> None
           | entry # rest \<Rightarrow> (if entry_response entry \<noteq> [] then Some (entry_response entry) else None)))"

text \<open>
  \<^verbatim>\<open>for match in cache_results\<close>: a list gives its elements, a dict its keys, a
  string its characters, anything else is not iterable.
\<close>

fun py_iter :: "pyval \<Rightarrow> error + pyval list" where
  "py_iter (PList xs) = Inr xs"
| "py_iter (PDict kvs) = Inr (map (\<lambda>(k, v). PStr k) kvs)"
| "py_iter (PStr s) = Inr (map (\<lambda>c. PStr [c]) s)"
| "py_iter v = Inl (Error ''TypeError: object is not iterable'')"

text \<open>\<^verbatim>\<open>match.get(key)\<close>: only a dict has \<^verbatim>\<open>get\<close>.\<close>

fun match_get :: "pyval \<Rightarrow> string \<Rightarrow> error + pyval" where
  "match_get (PDict d) key = Inr (dict_get d key)"
| "match_get v key = Inl (Error ''AttributeError: object has no attribute get'')"

text \<open>
  One match of either loop: the three fields read with \<^verbatim>\<open>get\<close>, and the
  \<^verbatim>\<open>SearchMatch\<close> made of them. The loop on a miss also keeps the fields as a dict
  for the cache.
\<close>

definition match_fields :: "pyval \<Rightarrow> error + pyval \<times> pyval \<times> pyval" where
  "match_fields m =
     (case match_get m ''id'' of
        Inl e \<Rightarrow> Inl e
      | Inr i \<Rightarrow>
          (case match_get m ''metadata'' of
             Inl e \<Rightarrow> Inl e
           | Inr md \<Rightarrow>
               (case match_get m ''score'' of
                  Inl e \<Rightarrow> Inl e
                | Inr sc \<Rightarrow> Inr (i, md, sc))))"

fun cached_matches :: "('e, 'm) search_env \<Rightarrow> pyval list \<Rightarrow> 'm list \<Rightarrow> error + 'm list" where
  "cached_matches env [] acc = Inr acc"
| "cached_matches env (m # ms) acc =
     (case match_fields m of
        Inl e \<Rightarrow> Inl e
      | Inr (i, md, sc) \<Rightarrow>
          (case SearchMatch env i md sc of
             Inl e \<Rightarrow> Inl e
           | Inr search_match \<Rightarrow> cached_matches env ms (acc @ [search_match])))"

fun search_matches ::
  "('e, 'm) search_env \<Rightarrow> pyval list \<Rightarrow> 'm list \<Rightarrow> pyval list \<Rightarrow> error + 'm list \<times> pyval list"
where
  "search_matches env [] acc cache_results = Inr (acc, cache_results)"
| "search_matches env (m # ms) acc cache_results =
     (case match_fields m of
        Inl e \<Rightarrow> Inl e
      | Inr (i, md, sc) \<Rightarrow>
          (case SearchMatch env i md sc of
             Inl e \<Rightarrow> Inl e
           | Inr search_match \<Rightarrow>
               search_matches env ms (acc @ [search_match])
                 (cache_results @ [PDict [(''id'', i), (''metadata'', md), (''score'', sc)]])))"

text \<open>\<^verbatim>\<open>await asyncio.gather(*tasks)\<close>: all results in the order of the tasks, or an exception.\<close>

fun gather :: "(error + 'a) list \<Rightarrow> error + 'a list" where
  "gather [] = Inr []"
| "gather (Inl e # rs) = Inl e"
| "gather (Inr x # rs) = (case gather rs of Inl e \<Rightarrow> Inl e | Inr xs \<Rightarrow> Inr (x # xs))"

text \<open>
  \<^verbatim>\<open>PineconeService.query(query_embedding, top_k, namespace)\<close>, the matches or the
  exception raised again.
\<close>

definition pinecone_query ::
  "('e, 'm) search_env \<Rightarrow> 'e \<Rightarrow> int \<Rightarrow> string \<Rightarrow> error + pyval list"
where
  "pinecone_query env query_embedding top_k namespace =
     index_query env query_embedding top_k (given_namespace (Some namespace))"

text \<open>
  \<^verbatim>\<open>search_documents\<close>: the answer and the calls made. Every exception of the body
  becomes \<^verbatim>\<open>HTTPException(status_code=500, detail=str(e))\<close>.
\<close>

definition search_documents ::
  "('e, 'm) search_env \<Rightarrow> cache_service \<Rightarrow> search_request \<Rightarrow>
   (http_error + 'm search_response) \<times> 'e event list"
where
  "search_documents env cache_service request =
     (let query = sr_query request;
          top_k = sr_top_k request;
          namespaces = query_namespaces (sr_namespace request);
          cached_results = CacheService_get cache_service query;
          trace = [CacheGet query]
      in case stored_response cached_results of
           Some response \<Rightarrow>
             (case json_loads env response of
                Inl e \<Rightarrow> (Inl (HTTPException 500 (error_str e)), trace)
              | Inr cache_results \<Rightarrow>
                  (case py_iter cache_results of
                     Inl e \<Rightarrow> (Inl (HTTPException 500 (error_str e)), trace)
                   | Inr ms \<Rightarrow>
                       (case cached_matches env ms [] of
                          Inl e \<Rightarrow> (Inl (HTTPException 500 (error_str e)), trace)
                        | Inr matches \<Rightarrow>
                            (Inr \<lparr>results = matches, query_rewritten = None,
                                   total_results = length matches\<rparr>, trace))))
         | None \<Rightarrow>
             (case embed env query of
                Inl e \<Rightarrow> (Inl (HTTPException 500 (error_str e)), trace @ [GenerateEmbedding query])
              | Inr query_embedding \<Rightarrow>
                  (let namespace_strs =
                         map (\<lambda>namespace. search_namespace namespace (sr_location_id request)) namespaces;
                       trace = trace @ [GenerateEmbedding query]
                              @ map (\<lambda>ns. IndexQuery query_embedding top_k (given_namespace (Some ns)))
                                  namespace_strs
                   in case gather (map (pinecone_query env query_embedding top_k) namespace_strs) of
                        Inl e \<Rightarrow> (Inl (HTTPException 500 (error_str e)), trace)
                      | Inr parallel_results \<Rightarrow>
                          (case search_matches env (concat parallel_results) [] [] of
                             Inl e \<Rightarrow> (Inl (HTTPException 500 (error_str e)), trace)
                           | Inr (matches, cache_results) \<Rightarrow>
                               (Inr \<lparr>results = matches, query_rewritten = None,
                                      total_results = length matches\<rparr>,
                                trace @ [CacheSetTask query cache_results])))))"

text \<open>
  The stored match list as the claim has it returned: one validated match for each
  stored record, made of its \<^verbatim>\<open>id\<close>, \<^verbatim>\<open>metadata\<close> and \<^verbatim>\<open>score\<close>, in order.
\<close>

definition deserialized :: "('e, 'm) search_env \<Rightarrow> pyval list \<Rightarrow> 'm list \<Rightarrow> bool" where
  "deserialized env stored matches =
     list_all2 (\<lambda>s m. case s of
                  PDict d \<Rightarrow> SearchMatch env (dict_get d ''id'') (dict_get d ''metadata'')
                               (dict_get d ''score'') = Inr m
                | _ \<Rightarrow> False) stored matches"

section \<open>Results\<close>

subsection \<open>Namespaces on the two paths\<close>

lemma namespace_blogs_stores:
  "type = BLOGS \<or> type = STORES \<Longrightarrow>
   ingest_namespace type location_id = object_type_value type \<and>
   search_namespace (Some type) location_id = object_type_value type"
  by (auto simp: ingest_namespace_def search_namespace_def)

lemma namespace_products_located:
  "l \<noteq> [] \<Longrightarrow>
   ingest_namespace PRODUCTS (Some l) = l @ ''-products'' \<and>
   search_namespace (Some PRODUCTS) (Some l) = l @ ''-products''"
  by (simp add: ingest_namespace_def search_namespace_def location_or_orphan_def str_opt_def)

text \<open>
  C1. The claim: for every type and optional location the ingest path and the search path
  compute the same namespace, and products without a location are written to and queried
  in \<^verbatim>\<open>orphan-products\<close>. The code at a product request that carries no
  \<^verbatim>\<open>location_id\<close>: the ingest path writes to \<^verbatim>\<open>orphan-products\<close>, the search
  path queries \<^verbatim>\<open>None-products\<close>; with the empty string as location the search
  path queries \<^verbatim>\<open>-products\<close>.
\<close>

theorem namespace_paths_differ_without_location:
  "ingest_namespace PRODUCTS None = ''orphan-products'' \<and>
   search_namespace (Some PRODUCTS) None = ''None-products'' \<and>
   ingest_namespace PRODUCTS (Some []) = ''orphan-products'' \<and>
   search_namespace (Some PRODUCTS) (Some []) = ''-products''"
  by (simp add: ingest_namespace_def search_namespace_def location_or_orphan_def str_opt_def)

subsection \<open>Vector ids\<close>

lemma vector_id_truthy_id:
  "map_of metadata ''id'' = Some v \<Longrightarrow> truthy v \<Longrightarrow> vector_id repr metadata = py_str repr v"
  by (simp add: vector_id_def dict_get_def py_or_def)

text \<open>
  C8. The claim: the id is the text of the first of \<^verbatim>\<open>id\<close>, \<^verbatim>\<open>databaseId\<close>,
  \<^verbatim>\<open>zip\<close> that is present and not null, a present \<^verbatim>\<open>0\<close> or empty string is
  still selected, and the id is never \<^verbatim>\<open>None\<close>. The code at a record with
  \<^verbatim>\<open>id: 0\<close> and \<^verbatim>\<open>databaseId: 7\<close>: the identity key is \<^verbatim>\<open>0\<close>, the id
  is \<^verbatim>\<open>7\<close>; at a record with none of the three keys the id is the text
  \<^verbatim>\<open>None\<close>.
\<close>

theorem vector_id_skips_falsy_keys:
  "identity_key [(''type'', PEnum ''medical''), (''id'', PInt 0), (''databaseId'', PInt 7)]
     = Some (PInt 0) \<and>
   vector_id repr [(''type'', PEnum ''medical''), (''id'', PInt 0), (''databaseId'', PInt 7)]
     = ''7'' \<and>
   vector_id repr [(''type'', PEnum ''medical''), (''id'', PStr []), (''zip'', PStr ''90210'')]
     = ''90210'' \<and>
   vector_id repr [(''type'', PEnum ''medical'')] = ''None''"
  by (simp add: identity_key_def vector_id_def dict_get_def py_or_def str_int_def digits.simps)

subsection \<open>The sanitizer\<close>

lemma digits_nonempty: "digits n \<noteq> []"
  by (subst digits.simps) simp

lemma str_int_nonempty: "str_int i \<noteq> []"
  by (simp add: str_int_def digits_nonempty)

lemma set_update_subset: "set (AList.update k v d) \<subseteq> insert (k, v) (set d)"
  by (induction d) auto

lemma set_dict_update: "set (dict_update items other) \<subseteq> set items \<union> set other"
proof (induction other arbitrary: items)
  case Nil
  then show ?case by (simp add: dict_update_def)
next
  case (Cons a other)
  obtain k v where a: "a = (k, v)" by (cases a)
  have "dict_update items (a # other) = dict_update (AList.update k v items) other"
    by (simp add: dict_update_def a)
  moreover have "set (dict_update (AList.update k v items) other)
      \<subseteq> set (AList.update k v items) \<union> set other"
    by (rule Cons.IH)
  ultimately show ?case using set_update_subset [of k v items] a by auto
qed

lemma distinct_dict_update:
  "distinct (map fst items) \<Longrightarrow> distinct (map fst (dict_update items other))"
proof (induction other arbitrary: items)
  case Nil
  then show ?case by (simp add: dict_update_def)
next
  case (Cons a other)
  obtain k v where a: "a = (k, v)" by (cases a)
  have "dict_update items (a # other) = dict_update (AList.update k v items) other"
    by (simp add: dict_update_def a)
  then show ?case using Cons.IH [of "AList.update k v items"] Cons.prems
    by (simp add: distinct_update)
qed

lemma flat_iff: "flat d \<longleftrightarrow> (\<forall>(k, v) \<in> set d. scalar v)"
  by (simp add: flat_def list_all_iff)

lemma flat_dict_update: "flat items \<Longrightarrow> flat other \<Longrightarrow> flat (dict_update items other)"
  using set_dict_update [of items other] by (fastforce simp: flat_iff)

lemma sanitize_flat_distinct:
  "flat (sanitize_metadata data parent_key sep) \<and>
   distinct (map fst (sanitize_metadata data parent_key sep))"
  "flat items \<and> distinct (map fst items) \<Longrightarrow>
   flat (sanitize_items kvs parent_key sep items) \<and>
   distinct (map fst (sanitize_items kvs parent_key sep items))"
  "flat items \<and> distinct (map fst items) \<Longrightarrow>
   flat (sanitize_elems xs i parent_key sep items) \<and>
   distinct (map fst (sanitize_elems xs i parent_key sep items))"
proof (induction data parent_key sep and kvs parent_key sep items and xs i parent_key sep items
    rule: sanitize_metadata_sanitize_items_sanitize_elems.induct)
  case (1 kvs parent_key sep)
  then show ?case by (simp add: flat_def)
next
  case (2 xs parent_key sep)
  then show ?case by (simp add: flat_def)
next
  case (10 key val kvs parent_key sep items)
  then show ?case by (simp add: flat_dict_update distinct_dict_update)
next
  case (12 val xs i parent_key sep items)
  then show ?case by (simp add: flat_dict_update distinct_dict_update)
qed (simp_all add: flat_def)

lemma join_cons: "join sep ((a @ sep @ b) # p) = join sep (a # b # p)"
  by (cases p) simp_all

lemma sanitize_keys_prefixed:
  "(k, x) \<in> set (sanitize_metadata data parent_key sep) \<Longrightarrow>
   parent_key \<noteq> [] \<or> \<not> is_dict data \<Longrightarrow>
   \<exists>p. (p, x) \<in> set (leaves data) \<and> k = join sep (parent_key # p)"
  "(k, x) \<in> set (sanitize_items kvs parent_key sep items) \<Longrightarrow> parent_key \<noteq> [] \<Longrightarrow>
   (k, x) \<in> set items \<or>
   (\<exists>p. (p, x) \<in> set (leaves_items kvs) \<and> k = join sep (parent_key # p))"
  "(k, x) \<in> set (sanitize_elems xs i parent_key sep items) \<Longrightarrow>
   (k, x) \<in> set items \<or>
   (\<exists>p. (p, x) \<in> set (leaves_elems xs i) \<and> k = join sep (parent_key # p))"
proof (induction data parent_key sep and kvs parent_key sep items and xs i parent_key sep items
    arbitrary: k x and k x and k x
    rule: sanitize_metadata_sanitize_items_sanitize_elems.induct)
  case (1 kvs parent_key sep)
  then show ?case by auto
next
  case (2 xs parent_key sep)
  then show ?case by auto
next
  case (10 key val kvs parent_key sep items)
  let ?nk = "if parent_key \<noteq> [] then parent_key @ sep @ key else key"
  let ?sub = "sanitize_metadata val ?nk sep"
  have nk: "?nk = parent_key @ sep @ key" using "10.prems"(2) by simp
  from "10.prems" have mem: "(k, x) \<in> set (sanitize_items kvs parent_key sep (dict_update items ?sub))"
    by simp
  from "10.IH"(2) [OF mem "10.prems"(2)]
  consider "(k, x) \<in> set (dict_update items ?sub)"
    | "\<exists>p. (p, x) \<in> set (leaves_items kvs) \<and> k = join sep (parent_key # p)" by blast
  then show ?case
  proof cases
    case 1
    then consider "(k, x) \<in> set items" | "(k, x) \<in> set ?sub"
      using set_dict_update [of items ?sub] by blast
    then show ?thesis
    proof cases
      case 1
      then show ?thesis by simp
    next
      case 2
      have "?nk \<noteq> []" using "10.prems"(2) by simp
      with "10.IH"(1) [of k x] 2
      obtain p where "(p, x) \<in> set (leaves val)" "k = join sep (?nk # p)" by blast
      then have "(key # p, x) \<in> set (leaves_items ((key, val) # kvs))"
        "k = join sep (parent_key # key # p)"
        using nk by (force simp: join_cons)+
      then show ?thesis by blast
    qed
  next
    case 2
    then show ?thesis by auto
  qed
next
  case (12 val xs i parent_key sep items)
  let ?nk = "parent_key @ sep @ str_int (int i)"
  let ?sub = "sanitize_metadata val ?nk sep"
  from "12.prems" have mem: "(k, x) \<in> set (sanitize_elems xs (Suc i) parent_key sep (dict_update items ?sub))"
    by simp
  from "12.IH"(2) [OF mem]
  consider "(k, x) \<in> set (dict_update items ?sub)"
    | "\<exists>p. (p, x) \<in> set (leaves_elems xs (Suc i)) \<and> k = join sep (parent_key # p)" by blast
  then show ?case
  proof cases
    case 1
    then consider "(k, x) \<in> set items" | "(k, x) \<in> set ?sub"
      using set_dict_update [of items ?sub] by blast
    then show ?thesis
    proof cases
      case 1
      then show ?thesis by simp
    next
      case 2
      have "?nk \<noteq> []" by (simp add: str_int_nonempty)
      with "12.IH"(1) [of k x] 2
      obtain p where "(p, x) \<in> set (leaves val)" "k = join sep (?nk # p)" by blast
      then have "(str_int (int i) # p, x) \<in> set (leaves_elems (val # xs) i)"
        "k = join sep (parent_key # str_int (int i) # p)"
        by (force simp: join_cons)+
      then show ?thesis by blast
    qed
  next
    case 2
    then show ?thesis by auto
  qed
qed auto


lemma sanitize_scalar: "scalar v \<Longrightarrow> sanitize_metadata v k sep = [(k, v)]"
  by (cases v) simp_all

lemma leaves_scalar: "scalar v \<Longrightarrow> leaves v = [([], v)]"
  by (cases v) simp_all

lemma sanitize_items_root_keys:
  "(k, x) \<in> set (sanitize_items kvs [] sep items) \<Longrightarrow>
   list_all (\<lambda>(k, v). k \<noteq> [] \<or> \<not> is_dict v) kvs \<Longrightarrow>
   (k, x) \<in> set items \<or> (\<exists>p. (p, x) \<in> set (leaves_items kvs) \<and> k = join sep p)"
proof (induction kvs arbitrary: items)
  case Nil
  then show ?case by simp
next
  case (Cons a kvs)
  obtain key val where a: "a = (key, val)" by (cases a)
  let ?sub = "sanitize_metadata val key sep"
  from Cons.prems a have mem: "(k, x) \<in> set (sanitize_items kvs [] sep (dict_update items ?sub))"
    and reg: "key \<noteq> [] \<or> \<not> is_dict val" and rest: "list_all (\<lambda>(k, v). k \<noteq> [] \<or> \<not> is_dict v) kvs"
    by simp_all
  from Cons.IH [OF mem rest]
  consider "(k, x) \<in> set items" | "(k, x) \<in> set ?sub"
    | "\<exists>p. (p, x) \<in> set (leaves_items kvs) \<and> k = join sep p"
    using set_dict_update [of items ?sub] by blast
  then show ?case
  proof cases
    case 1
    then show ?thesis by simp
  next
    case 2
    from sanitize_keys_prefixed(1) [OF 2 reg]
    obtain p where p: "(p, x) \<in> set (leaves val)" "k = join sep (key # p)" by blast
    have "k = join sep (key # p) \<and> (key # p, x) \<in> set (leaves_items (a # kvs))"
      using p a by force
    then show ?thesis by blast
  next
    case 3
    then show ?thesis using a by auto
  qed
qed

lemma sanitize_root_keys:
  assumes "key_regular data" and "(k, x) \<in> set (sanitize_metadata data [] sep)"
  shows "\<exists>p. (p, x) \<in> set (leaves data) \<and> k = join sep p"
proof (cases data)
  case (PDict kvs)
  with assms sanitize_items_root_keys [of k x kvs sep "[]"] show ?thesis by simp
next
  case (PList xs)
  with assms show ?thesis by simp
qed (use assms in auto)

text \<open>
  C6. The claim: for every metadata value the result holds no null and no dict or list,
  and every key is the ancestors' keys and list indices joined with the separator. The
  first part holds for every value and every prefix. The second holds for every value
  that is not a list at the root and has no dict under an empty key of the root dict:
  the code takes the child key alone when the prefix is empty
  (\<^verbatim>\<open>if parent_key else key\<close>), and puts the separator before a list index
  always.
\<close>

theorem sanitize_metadata_flat_keys:
  "flat (sanitize_metadata data parent_key sep) \<and>
   (key_regular data \<longrightarrow> keys_joined sep data (sanitize_metadata data [] sep))"
proof -
  have "keys_joined sep data (sanitize_metadata data [] sep)" if reg: "key_regular data"
    unfolding keys_joined_def list_all_iff
  proof
    fix kv assume kv: "kv \<in> set (sanitize_metadata data [] sep)"
    obtain k x where eq: "kv = (k, x)" by (cases kv)
    from sanitize_root_keys [OF reg kv [unfolded eq]]
    obtain p where "(p, x) \<in> set (leaves data)" "k = join sep p" by blast
    then have "kv \<in> set (joined_leaves sep data)"
      unfolding joined_leaves_def eq by force
    then show "kv \<in> set (joined_leaves sep data)" .
  qed
  then show ?thesis using sanitize_flat_distinct(1) [of data parent_key sep] by blast
qed

theorem sanitize_metadata_flat_keys_witness:
  "key_regular (PDict [(''type'', PEnum ''medical''), (''brand'', PDict [(''name'', PStr ''Acme''), (''id'', PNone)]),
       (''tags'', PList [PStr ''a'', PInt 2])]) \<and>
   sanitize_metadata (PDict [(''type'', PEnum ''medical''), (''brand'', PDict [(''name'', PStr ''Acme''), (''id'', PNone)]),
       (''tags'', PList [PStr ''a'', PInt 2])]) [] ''_''
     = [(''type'', PEnum ''medical''), (''brand_name'', PStr ''Acme''), (''tags_0'', PStr ''a''), (''tags_1'', PInt 2)] \<and>
   flat [(''type'', PEnum ''medical''), (''brand_name'', PStr ''Acme''), (''tags_0'', PStr ''a''), (''tags_1'', PInt 2)] \<and>
   keys_joined ''_'' (PDict [(''type'', PEnum ''medical''), (''brand'', PDict [(''name'', PStr ''Acme''), (''id'', PNone)]),
       (''tags'', PList [PStr ''a'', PInt 2])])
     [(''type'', PEnum ''medical''), (''brand_name'', PStr ''Acme''), (''tags_0'', PStr ''a''), (''tags_1'', PInt 2)]"
proof -
  let ?d = "PDict [(''type'', PEnum ''medical''), (''brand'', PDict [(''name'', PStr ''Acme''), (''id'', PNone)]),
       (''tags'', PList [PStr ''a'', PInt 2])]"
  have reg: "key_regular ?d" by simp
  have ev: "sanitize_metadata ?d [] ''_''
     = [(''type'', PEnum ''medical''), (''brand_name'', PStr ''Acme''), (''tags_0'', PStr ''a''), (''tags_1'', PInt 2)]"
    by (simp add: dict_update_def str_int_def digits.simps)
  from sanitize_metadata_flat_keys [of ?d "[]" "''_''"] reg
  show ?thesis unfolding ev by simp
qed

text \<open>
  The claim on keys fails at a record with a dict under the empty key: the result key is
  \<^verbatim>\<open>a\<close>, the join of the ancestors' keys is \<^verbatim>\<open>_a\<close>.
\<close>

theorem sanitize_metadata_empty_key_counterexample:
  "\<not> keys_joined ''_'' (PDict [(''type'', PEnum ''medical''), ([], PDict [(''a'', PInt 1)])])
       (sanitize_metadata (PDict [(''type'', PEnum ''medical''), ([], PDict [(''a'', PInt 1)])]) [] ''_'')"
  by (simp add: keys_joined_def joined_leaves_def dict_update_def)


lemma update_fresh: "k \<notin> fst ` set d \<Longrightarrow> AList.update k v d = d @ [(k, v)]"
  by (induction d) auto

lemma sanitize_items_flat:
  "flat kvs \<Longrightarrow> distinct (map fst (items @ kvs)) \<Longrightarrow>
   sanitize_items kvs [] sep items = items @ kvs"
proof (induction kvs arbitrary: items)
  case Nil
  then show ?case by simp
next
  case (Cons a kvs)
  obtain key val where a: "a = (key, val)" by (cases a)
  from Cons.prems a have sc: "scalar val" and fl: "flat kvs"
    by (simp_all add: flat_def)
  from Cons.prems a have fresh: "key \<notin> fst ` set items"
    and dist: "distinct (map fst ((items @ [(key, val)]) @ kvs))"
    by auto
  have "dict_update items (sanitize_metadata val key sep) = items @ [(key, val)]"
    by (simp add: sanitize_scalar [OF sc] dict_update_def update_fresh [OF fresh])
  then have "sanitize_items (a # kvs) [] sep items = sanitize_items kvs [] sep (items @ [(key, val)])"
    by (simp add: a)
  also have "\<dots> = (items @ [(key, val)]) @ kvs"
    by (rule Cons.IH [OF fl dist])
  finally show ?case by (simp add: a)
qed

text \<open>
  C7. The sanitizer changes nothing on a flat map (a dict of scalars that are not null),
  and sanitizing a result again gives the same result.
\<close>

theorem sanitize_metadata_idempotent:
  "(flat d \<and> distinct (map fst d) \<longrightarrow> sanitize_metadata (PDict d) [] sep = d) \<and>
   sanitize_metadata (PDict (sanitize_metadata x [] sep)) [] sep = sanitize_metadata x [] sep"
proof -
  have noop: "sanitize_metadata (PDict d) [] sep = d" if "flat d" "distinct (map fst d)" for d
    using sanitize_items_flat [of d "[]" sep] that by simp
  from noop [of "sanitize_metadata x [] sep"] sanitize_flat_distinct(1) [of x "[]" sep] noop
  show ?thesis by blast
qed

theorem sanitize_metadata_idempotent_witness:
  "flat [(''type'', PEnum ''medical''), (''name'', PStr ''Red Shoes''), (''price'', PInt 5)] \<and>
   distinct (map fst [(''type'', PEnum ''medical''), (''name'', PStr ''Red Shoes''), (''price'', PInt 5)]) \<and>
   sanitize_metadata (PDict [(''type'', PEnum ''medical''), (''name'', PStr ''Red Shoes''), (''price'', PInt 5)]) [] ''_''
     = [(''type'', PEnum ''medical''), (''name'', PStr ''Red Shoes''), (''price'', PInt 5)] \<and>
   sanitize_metadata (PDict (sanitize_metadata (PDict [(''brand'', PDict [(''name'', PStr ''Acme'')])]) [] ''_'')) [] ''_''
     = [(''brand_name'', PStr ''Acme'')]"
proof -
  have fl: "flat [(''type'', PEnum ''medical''), (''name'', PStr ''Red Shoes''), (''price'', PInt 5)]"
    by (simp add: flat_def)
  have di: "distinct (map fst [(''type'', PEnum ''medical''), (''name'', PStr ''Red Shoes''), (''price'', PInt 5)])"
    by simp
  have ev: "sanitize_metadata (PDict [(''brand'', PDict [(''name'', PStr ''Acme'')])]) [] ''_''
      = [(''brand_name'', PStr ''Acme'')]"
    by (simp add: dict_update_def)
  from sanitize_metadata_idempotent
    [of "[(''type'', PEnum ''medical''), (''name'', PStr ''Red Shoes''), (''price'', PInt 5)]" "''_''"
        "PDict [(''brand'', PDict [(''name'', PStr ''Acme'')])]"] fl di ev
  show ?thesis by simp
qed

subsection \<open>Values-only text\<close>

lemma collect_values_record: "collect_values repr (PDict kvs) = Some []"
  by simp

text \<open>
  C5. The claim: the text ends with a values-only string that holds every non-empty
  scalar leaf of the record, that is, \<^verbatim>\<open>collect_values\<close> returns the list of these
  leaves in traversal order. The code on a record, which is a dict: the lists of the
  recursive calls are dropped, the list returned is empty and the text ends with the
  blank after the description. At the record \<^verbatim>\<open>{type: medical, name: Red Shoes}\<close>
  the leaves are \<^verbatim>\<open>medical\<close> and \<^verbatim>\<open>Red Shoes\<close>.
\<close>

theorem collect_values_drops_nested_values:
  "collect_values repr (PDict kvs) = Some [] \<and>
   semantic_text repr description (PDict kvs) = Inr (description @ '' '') \<and>
   leaf_values_spec repr (PDict [(''type'', PEnum ''medical''), (''name'', PStr ''Red Shoes'')])
     = [''medical'', ''Red Shoes''] \<and>
   collect_values repr (PDict [(''type'', PEnum ''medical''), (''name'', PStr ''Red Shoes'')]) = Some []"
  by (simp add: semantic_text_def strip_def is_space_def isdigit_def)

subsection \<open>Batches of the vector store service\<close>

lemma chunks_concat: "concat (chunks n xs) = (if n = 0 then [] else xs)"
proof (induction n xs rule: chunks.induct)
  case (1 n xs)
  then show ?case by (subst chunks.simps) auto
qed

lemma chunks_bounded: "list_all (\<lambda>b. b \<noteq> [] \<and> length b \<le> n) (chunks n xs)"
proof (induction n xs rule: chunks.induct)
  case (1 n xs)
  then show ?case by (subst chunks.simps) auto
qed

lemma upsert_loop_chunks:
  "upsert_loop (\<lambda>b ns. Inr (ack b ns)) vectors namespace
     (py_range i (length vectors) 100) 100 responses calls
   = (Inr (responses @ map (\<lambda>b. ack b (given_namespace namespace)) (chunks 100 (drop i vectors))),
      calls @ map (\<lambda>b. (b, given_namespace namespace)) (chunks 100 (drop i vectors)))"
proof (induction i "length vectors" "100::nat" arbitrary: responses calls rule: py_range.induct)
  case (1 start)
  show ?case
  proof (cases "length vectors \<le> start")
    case True
    then show ?thesis
      by (simp add: py_range.simps [of start] chunks.simps [of _ "[]"])
  next
    case False
    let ?batch = "take 100 (drop start vectors)"
    have ch: "chunks 100 (drop start vectors) = ?batch # chunks 100 (drop (start + 100) vectors)"
      using False by (subst chunks.simps) (simp add: add.commute)
    have rg: "py_range start (length vectors) 100 = start # py_range (start + 100) (length vectors) 100"
      using False by (subst py_range.simps) simp
    show ?thesis
    proof (cases "length vectors \<le> start + 100")
      case True
      then have "py_range (start + 100) (length vectors) 100 = []"
        by (subst py_range.simps) simp
      moreover from True have "chunks 100 (drop (start + 100) vectors) = []"
        by (subst chunks.simps) simp
      ultimately show ?thesis by (simp add: rg ch Let_def)
    next
      case long: False
      then have len: "length ?batch = 100" by simp
      from False have "\<not> (100 = (0::nat) \<or> length vectors \<le> start)" by simp
      from 1 [OF this] len show ?thesis
        by (simp add: rg ch Let_def)
    qed
  qed
qed

lemma upsert_acknowledged:
  "upsert (\<lambda>b ns. Inr (ack b ns)) vectors namespace calls
     = (Inr \<lparr>total_upserted = length vectors,
             batches = map (\<lambda>b. ack b (given_namespace namespace)) (chunks 100 vectors)\<rparr>,
        calls @ map (\<lambda>b. (b, given_namespace namespace)) (chunks 100 vectors))"
  using upsert_loop_chunks [of ack vectors namespace 0 "[]" calls]
  by (simp add: upsert_def)

text \<open>
  C10. On an index that acknowledges every call, \<^verbatim>\<open>upsert\<close> makes one call per
  chunk of at most 100 vectors, in order, after the calls made before; the chunks put
  together are the input, none is empty and none is longer than 100; and
  \<^verbatim>\<open>total_upserted\<close> is the length of the input. The assignment to
  \<^verbatim>\<open>batch_size\<close> inside the loop changes nothing: a batch is shorter than 100
  only at the last index.
\<close>

theorem upsert_partitions:
  "upsert (\<lambda>b ns. Inr (ack b ns)) vectors namespace calls
     = (Inr \<lparr>total_upserted = length vectors,
             batches = map (\<lambda>b. ack b (given_namespace namespace)) (chunks 100 vectors)\<rparr>,
        calls @ map (\<lambda>b. (b, given_namespace namespace)) (chunks 100 vectors)) \<and>
   concat (chunks 100 vectors) = vectors \<and>
   list_all (\<lambda>b. b \<noteq> [] \<and> length b \<le> 100) (chunks 100 vectors)"
  by (simp add: upsert_acknowledged chunks_concat chunks_bounded)

subsection \<open>The consumer of the batch pipeline\<close>

lemma gots_pass:
  "thread_status c = Running \<Longrightarrow> total_processed c < n \<Longrightarrow>
   thread_status (batch_upsert_pass idx n ns c) \<noteq> Stopped \<and>
   length (gots (queue_polls (batch_upsert_pass idx n ns c))) + total_processed (batch_upsert_pass idx n ns c)
     = length (gots (queue_polls c)) + total_processed c"
  by (cases "queue_polls c" rule: gots.cases)
     (auto simp: batch_upsert_pass_def on_empty_def Let_def split: prod.splits sum.splits)

lemma batch_upsert_returns:
  assumes "batch_upsert idx n ns c = Some c'"
  shows "thread_status c \<noteq> Stopped \<longrightarrow>
     n \<le> length (gots (queue_polls c)) + total_processed c \<or> (\<exists>e. thread_status c' = Raised e)"
proof (rule batch_upsert.raw_induct
    [where P = "\<lambda>idx n ns c c'. thread_status c \<noteq> Stopped \<longrightarrow>
       n \<le> length (gots (queue_polls c)) + total_processed c \<or> (\<exists>e. thread_status c' = Raised e)",
     OF _ assms])
  fix f and idx :: "('a, 'b) index_upsert" and n ns and c c' :: "'a consumer"
  assume IH: "\<And>idx n ns c c'. f idx n ns c = Some c' \<Longrightarrow> thread_status c \<noteq> Stopped \<longrightarrow>
       n \<le> length (gots (queue_polls c)) + total_processed c \<or> (\<exists>e. thread_status c' = Raised e)"
    and eq: "(if thread_status c = Running \<and> total_processed c < n
      then f idx n ns (batch_upsert_pass idx n ns c) else Some c) = Some c'"
  show "thread_status c \<noteq> Stopped \<longrightarrow>
       n \<le> length (gots (queue_polls c)) + total_processed c \<or> (\<exists>e. thread_status c' = Raised e)"
  proof (cases "thread_status c = Running \<and> total_processed c < n")
    case True
    with eq have "f idx n ns (batch_upsert_pass idx n ns c) = Some c'" by simp
    from IH [OF this] gots_pass [of c n idx ns] True show ?thesis by auto
  next
    case False
    with eq show ?thesis by (cases "thread_status c") auto
  qed
qed

lemma pass_not_raised:
  "thread_status c = Running \<Longrightarrow>
   thread_status (batch_upsert_pass (\<lambda>b ns. Inr (ack b ns)) n ns c) \<noteq> Raised e"
  by (cases "queue_polls c" rule: gots.cases)
     (auto simp: batch_upsert_pass_def on_empty_def Let_def upsert_acknowledged split: prod.splits sum.splits)


lemma pass_running:
  "thread_status c = Running \<Longrightarrow> total_processed c < n \<Longrightarrow>
   thread_status (batch_upsert_pass (\<lambda>b ns. Inr (ack b ns)) n ns c) = Running"
  using pass_not_raised [of c ack n ns] gots_pass [of c n "\<lambda>b ns. Inr (ack b ns)" ns]
  by (cases "thread_status (batch_upsert_pass (\<lambda>b ns. Inr (ack b ns)) n ns c)") auto

lemma batch_upsert_returns_acknowledged:
  assumes "batch_upsert idx n ns c = Some c'"
  shows "idx = (\<lambda>b ns. Inr (ack b ns)) \<longrightarrow> thread_status c = Running \<longrightarrow>
       n \<le> length (gots (queue_polls c)) + total_processed c"
proof (rule batch_upsert.raw_induct
    [where P = "\<lambda>idx n ns c c'. idx = (\<lambda>b ns. Inr (ack b ns)) \<longrightarrow> thread_status c = Running \<longrightarrow>
       n \<le> length (gots (queue_polls c)) + total_processed c",
     OF _ assms])
  fix f and idx :: "('a, 'b) index_upsert" and n ns and c c' :: "'a consumer"
  assume IH: "\<And>idx n ns c c'. f idx n ns c = Some c' \<Longrightarrow>
       idx = (\<lambda>b ns. Inr (ack b ns)) \<longrightarrow> thread_status c = Running \<longrightarrow>
       n \<le> length (gots (queue_polls c)) + total_processed c"
    and eq: "(if thread_status c = Running \<and> total_processed c < n
      then f idx n ns (batch_upsert_pass idx n ns c) else Some c) = Some c'"
  show "idx = (\<lambda>b ns. Inr (ack b ns)) \<longrightarrow> thread_status c = Running \<longrightarrow>
       n \<le> length (gots (queue_polls c)) + total_processed c"
  proof (intro impI)
    assume idx: "idx = (\<lambda>b ns. Inr (ack b ns))" and run: "thread_status c = Running"
    show "n \<le> length (gots (queue_polls c)) + total_processed c"
    proof (cases "total_processed c < n")
      case True
      with eq run have "f idx n ns (batch_upsert_pass idx n ns c) = Some c'" by simp
      from IH [OF this] idx pass_running [OF run True, of ack ns] gots_pass [OF run True, of idx ns]
      show ?thesis by simp
    next
      case False
      then show ?thesis by simp
    qed
  qed
qed

lemma waiting_pass:
  "waiting g c \<Longrightarrow> g < n \<Longrightarrow> g < 100 \<Longrightarrow> waiting g (batch_upsert_pass idx n ns c)"
  by (cases "queue_polls c" rule: gots.cases)
     (auto simp: waiting_def batch_upsert_pass_def on_empty_def Let_def)

lemma waiting_passes:
  "waiting g c \<Longrightarrow> g < n \<Longrightarrow> g < 100 \<Longrightarrow> waiting g ((batch_upsert_pass idx n ns ^^ k) c)"
  by (induction k) (simp_all add: waiting_pass)

text \<open>
  C2. The claim: with K of N records failing, the consumer loop ends, N-K vectors are
  upserted and no error is raised. The code counts a vector it took off the queue and
  nothing else, so a record that failed is never counted: when a record fails, on an
  index that acknowledges every call, the loop never ends, whatever the order of arrival
  and the timeouts in between (the \<^verbatim>\<open>break\<close> under \<^verbatim>\<open>except queue.Empty\<close>
  is never reached); and when fewer than 100 vectors arrive, no pass of the loop ever
  sends one to the index. Without a failure the loop ends with every vector upserted
  (\<open>batch_upsert_no_failure\<close>).
\<close>

theorem batch_upsert_starves_after_a_failure:
  assumes "length (gots ps) = length (produced svc repr type metadata_list)"
    and "length (produced svc repr type metadata_list) < length metadata_list"
  shows "batch_upsert (\<lambda>b ns. Inr (ack b ns)) (length metadata_list) namespace (consumer_start ps) = None \<and>
     (length (gots ps) < 100 \<longrightarrow>
        (\<forall>k. upserted ((batch_upsert_pass (\<lambda>b ns. Inr (ack b ns)) (length metadata_list) namespace ^^ k)
                (consumer_start ps)) = []))"
proof
  show "batch_upsert (\<lambda>b ns. Inr (ack b ns)) (length metadata_list) namespace (consumer_start ps) = None"
  proof (rule ccontr)
    assume "\<not> ?thesis"
    then obtain c' where "batch_upsert (\<lambda>b ns. Inr (ack b ns)) (length metadata_list) namespace
        (consumer_start ps) = Some c'" by auto
    from batch_upsert_returns_acknowledged [OF this, of ack] assms show False
      by (simp add: consumer_start_def)
  qed
next
  have start: "waiting (length (gots ps)) (consumer_start ps)"
    by (simp add: waiting_def consumer_start_def)
  show "length (gots ps) < 100 \<longrightarrow>
        (\<forall>k. upserted ((batch_upsert_pass (\<lambda>b ns. Inr (ack b ns)) (length metadata_list) namespace ^^ k)
                (consumer_start ps)) = [])"
  proof (intro impI allI)
    fix k
    assume small: "length (gots ps) < 100"
    from assms have "length (gots ps) < length metadata_list" by simp
    from waiting_passes [OF start this small, where idx = "\<lambda>b ns. Inr (ack b ns)" and ns = namespace and k = k]
    have "index_calls ((batch_upsert_pass (\<lambda>b ns. Inr (ack b ns)) (length metadata_list) namespace ^^ k)
        (consumer_start ps)) = []"
      by (simp add: waiting_def)
    then show "upserted ((batch_upsert_pass (\<lambda>b ns. Inr (ack b ns)) (length metadata_list) namespace ^^ k)
        (consumer_start ps)) = []"
      by (simp add: upserted_def)
  qed
qed


theorem batch_upsert_starves_after_a_failure_witness:
  "length (gots (map Got (produced
       \<lparr>generate_text = (\<lambda>md t. if dict_get md ''name'' = PNone then Inl (Error ''no name'') else Inr ''text''),
        generate_embedding = (\<lambda>text. Inr [1, 2, 3 :: nat])\<rparr> (\<lambda>v. []) PRODUCTS
       [[(''type'', PEnum ''medical''), (''id'', PStr ''p1''), (''name'', PStr ''Red Shoes'')],
        [(''type'', PEnum ''medical''), (''id'', PStr ''p2'')]])))
     = length (produced
       \<lparr>generate_text = (\<lambda>md t. if dict_get md ''name'' = PNone then Inl (Error ''no name'') else Inr ''text''),
        generate_embedding = (\<lambda>text. Inr [1, 2, 3 :: nat])\<rparr> (\<lambda>v. []) PRODUCTS
       [[(''type'', PEnum ''medical''), (''id'', PStr ''p1''), (''name'', PStr ''Red Shoes'')],
        [(''type'', PEnum ''medical''), (''id'', PStr ''p2'')]]) \<and>
   length (produced
       \<lparr>generate_text = (\<lambda>md t. if dict_get md ''name'' = PNone then Inl (Error ''no name'') else Inr ''text''),
        generate_embedding = (\<lambda>text. Inr [1, 2, 3 :: nat])\<rparr> (\<lambda>v. []) PRODUCTS
       [[(''type'', PEnum ''medical''), (''id'', PStr ''p1''), (''name'', PStr ''Red Shoes'')],
        [(''type'', PEnum ''medical''), (''id'', PStr ''p2'')]]) = 1 \<and>
   batch_upsert (\<lambda>b ns. Inr ()) 2 ''orphan-products''
     (consumer_start (map Got (produced
       \<lparr>generate_text = (\<lambda>md t. if dict_get md ''name'' = PNone then Inl (Error ''no name'') else Inr ''text''),
        generate_embedding = (\<lambda>text. Inr [1, 2, 3 :: nat])\<rparr> (\<lambda>v. []) PRODUCTS
       [[(''type'', PEnum ''medical''), (''id'', PStr ''p1''), (''name'', PStr ''Red Shoes'')],
        [(''type'', PEnum ''medical''), (''id'', PStr ''p2'')]]))) = None \<and>
   (\<forall>k. upserted ((batch_upsert_pass (\<lambda>b ns. Inr ()) 2 ''orphan-products'' ^^ k)
     (consumer_start (map Got (produced
       \<lparr>generate_text = (\<lambda>md t. if dict_get md ''name'' = PNone then Inl (Error ''no name'') else Inr ''text''),
        generate_embedding = (\<lambda>text. Inr [1, 2, 3 :: nat])\<rparr> (\<lambda>v. []) PRODUCTS
       [[(''type'', PEnum ''medical''), (''id'', PStr ''p1''), (''name'', PStr ''Red Shoes'')],
        [(''type'', PEnum ''medical''), (''id'', PStr ''p2'')]])))) = [])"
proof -
  let ?svc = "\<lparr>generate_text = (\<lambda>md t. if dict_get md ''name'' = PNone then Inl (Error ''no name'') else Inr ''text''),
        generate_embedding = (\<lambda>text. Inr [1, 2, 3 :: nat])\<rparr>"
  let ?ml = "[[(''type'', PEnum ''medical''), (''id'', PStr ''p1''), (''name'', PStr ''Red Shoes'')],
        [(''type'', PEnum ''medical''), (''id'', PStr ''p2'')]]"
  let ?out = "produced ?svc (\<lambda>v. []) PRODUCTS ?ml"
  have out: "length ?out = 1"
    by (simp add: produced_def process_metadata_def dict_get_def)
  have got: "length (gots (map Got ?out)) = length ?out"
    by (simp add: produced_def process_metadata_def dict_get_def)
  have less: "length ?out < length ?ml" using out by simp
  have len2: "length ?ml = 2" by simp
  note th = batch_upsert_starves_after_a_failure
    [OF got less, where ack = "\<lambda>b ns. ()" and namespace = "''orphan-products''", unfolded len2]
  have small: "length (gots (map Got ?out)) < 100" using got out by simp
  from th have never: "batch_upsert (\<lambda>b ns. Inr ()) 2 ''orphan-products''
      (consumer_start (map Got ?out)) = None"
    by (rule conjunct1)
  from th small have idle: "\<forall>k. upserted ((batch_upsert_pass (\<lambda>b ns. Inr ()) 2 ''orphan-products'' ^^ k)
      (consumer_start (map Got ?out))) = []"
    by blast
  show ?thesis
    by (rule conjI [OF got conjI [OF out conjI [OF never idle]]])
qed


lemma upserted_flush:
  "upsert (\<lambda>b ns. Inr (ack b ns)) vs namespace calls = (r, calls') \<Longrightarrow>
   concat (map fst calls') = concat (map fst calls) @ vs \<and> (\<exists>x. r = Inr x)"
  by (auto simp: upsert_acknowledged comp_def chunks_concat)

lemma batch_upsert_all_arrive:
  "queue_polls c = ps \<Longrightarrow> thread_status c = Running \<Longrightarrow>
   length (gots ps) + total_processed c = n \<Longrightarrow>
   (total_processed c = n \<longrightarrow> vectors_to_upsert c = []) \<Longrightarrow>
   \<exists>c'. batch_upsert (\<lambda>b ns. Inr (ack b ns)) n namespace c = Some c' \<and>
        thread_status c' = Running \<and>
        upserted c' = upserted c @ vectors_to_upsert c @ gots ps"
proof (induction ps arbitrary: c)
  case Nil
  then show ?case by (subst batch_upsert.simps) simp
next
  case (Cons p ps)
  let ?idx = "\<lambda>b ns. Inr (ack b ns)"
  let ?c = "batch_upsert_pass ?idx n namespace c"
  show ?case
  proof (cases p)
    case Empty
    show ?thesis
    proof (cases "total_processed c < n")
      case True
      with Cons.prems Empty have pass: "?c = c\<lparr>queue_polls := ps\<rparr>"
        by (simp add: batch_upsert_pass_def on_empty_def)
      have "\<exists>c'. batch_upsert ?idx n namespace (c\<lparr>queue_polls := ps\<rparr>) = Some c' \<and>
        thread_status c' = Running \<and>
        upserted c' = upserted (c\<lparr>queue_polls := ps\<rparr>) @ vectors_to_upsert (c\<lparr>queue_polls := ps\<rparr>) @ gots ps"
        using Cons.prems Empty by (intro Cons.IH) simp_all
      with True Cons.prems pass Empty show ?thesis
        by (subst batch_upsert.simps) (simp add: upserted_def)
    next
      case False
      with Cons.prems Empty have "gots ps = []" by (cases "gots ps") auto
      with False Cons.prems Empty show ?thesis
        by (subst batch_upsert.simps) simp
    qed
  next
    case (Got v)
    with Cons.prems have lt: "total_processed c < n" by simp
    let ?c1 = "c\<lparr>queue_polls := ps, vectors_to_upsert := vectors_to_upsert c @ [v],
                  total_processed := total_processed c + 1\<rparr>"
    obtain r calls' where up: "upsert ?idx (vectors_to_upsert c @ [v]) (Some namespace) (index_calls c) = (r, calls')"
      by (cases "upsert ?idx (vectors_to_upsert c @ [v]) (Some namespace) (index_calls c)")
    from upserted_flush [OF up] obtain x where
      fl: "concat (map fst calls') = concat (map fst (index_calls c)) @ vectors_to_upsert c @ [v]"
      and r: "r = Inr x" by auto
    show ?thesis
    proof (cases "length (vectors_to_upsert c @ [v]) \<ge> 100 \<or> total_processed c + 1 = n")
      case True
      with Cons.prems Got up r have pass: "?c = ?c1\<lparr>index_calls := calls', vectors_to_upsert := []\<rparr>"
        by (simp add: batch_upsert_pass_def Let_def)
      have "\<exists>c'. batch_upsert ?idx n namespace ?c = Some c' \<and>
        thread_status c' = Running \<and>
        upserted c' = upserted ?c @ vectors_to_upsert ?c @ gots ps"
        using Cons.prems Got by (intro Cons.IH) (simp_all add: pass)
      with lt Cons.prems Got fl show ?thesis
        by (subst batch_upsert.simps) (simp add: upserted_def pass)
    next
      case False
      with Cons.prems Got have pass: "?c = ?c1"
        by (simp add: batch_upsert_pass_def Let_def)
      have "\<exists>c'. batch_upsert ?idx n namespace ?c = Some c' \<and>
        thread_status c' = Running \<and>
        upserted c' = upserted ?c @ vectors_to_upsert ?c @ gots ps"
        using Cons.prems Got False by (intro Cons.IH) (simp_all add: pass)
      with lt Cons.prems Got show ?thesis
        by (subst batch_upsert.simps) (simp add: upserted_def pass)
    qed
  qed
qed

lemma batch_upsert_no_failure:
  "length (gots ps) = n \<Longrightarrow>
   \<exists>c'. batch_upsert (\<lambda>b ns. Inr (ack b ns)) n namespace (consumer_start ps) = Some c' \<and>
        upserted c' = gots ps"
  using batch_upsert_all_arrive [of "consumer_start ps" ps n ack namespace]
  by (auto simp: consumer_start_def upserted_def)

subsection \<open>Single ingestion\<close>

text \<open>
  C3. The claim: a request that is answered with success has had its vector upserted in
  its namespace before the answer. The code: the handler never calls the vector store,
  the call is a comment, while it logs \<^verbatim>\<open>Upserting vector\<close> and answers
  \<^verbatim>\<open>ingested successfully\<close>. At the record \<^verbatim>\<open>p1\<close> the answer is success and the
  index has been sent nothing.
\<close>

theorem ingest_document_never_upserts:
  "snd (ingest_document svc repr request calls) = calls \<and>
   ingest_document
     \<lparr>generate_text = (\<lambda>md t. Inr ''Red Shoes.''), generate_embedding = (\<lambda>text. Inr [1, 2, 3 :: nat])\<rparr>
     repr
     \<lparr>req_location_id = None, req_id = None, req_type = PRODUCTS,
      req_metadata = [(''type'', PEnum ''recreational''), (''id'', PStr ''p1''), (''name'', PStr ''Red Shoes'')]\<rparr>
     []
   = (Inr \<lparr>resp_status = ''success'', resp_message = ''products ingested successfully''\<rparr>, []) \<and>
   expected_upsert_call repr
     \<lparr>req_location_id = None, req_id = None, req_type = PRODUCTS,
      req_metadata = [(''type'', PEnum ''recreational''), (''id'', PStr ''p1''), (''name'', PStr ''Red Shoes'')]\<rparr>
     [1, 2, 3 :: nat]
   = ([\<lparr>vec_id = ''p1'', vec_values = [1, 2, 3],
        vec_metadata = [(''type'', PEnum ''recreational''), (''id'', PStr ''p1''), (''name'', PStr ''Red Shoes'')]\<rparr>],
      Some ''orphan-products'')"
  by (simp add: ingest_document_def expected_upsert_call_def Let_def vector_id_def dict_get_def
      py_or_def dict_update_def ingest_namespace_def location_or_orphan_def given_namespace_def
      split: sum.splits)

subsection \<open>The cache service\<close>

lemma cache_get_degrades:
  "CacheService_get \<lparr>client = Some \<lparr>lc_search = (\<lambda>q. Inl e), lc_set = s\<rparr>\<rparr> query = None"
  by (simp add: CacheService_get_def)

lemma cache_set_degrades:
  "CacheService_set json_dumps \<lparr>client = Some \<lparr>lc_search = f, lc_set = (\<lambda>q r. Inl e)\<rparr>\<rparr> query val = False"
  by (simp add: CacheService_set_def split: sum.splits)

lemma cache_without_client:
  "CacheService_get \<lparr>client = None\<rparr> query = None \<and>
   CacheService_set json_dumps \<lparr>client = None\<rparr> query val = False"
  by (simp add: CacheService_get_def CacheService_set_def)

text \<open>
  C9. The claim: a search that raises gives \<^verbatim>\<open>None\<close>, a set that raises gives
  \<^verbatim>\<open>False\<close>, and a connect that fails leaves a service that does nothing. The code
  does the first two; a connect that raises is raised out of the constructor, no service
  is made.
\<close>

theorem cache_connect_failure_raises:
  "CacheService_get \<lparr>client = Some \<lparr>lc_search = (\<lambda>q. Inl e), lc_set = s\<rparr>\<rparr> query = None \<and>
   CacheService_set json_dumps \<lparr>client = Some \<lparr>lc_search = f, lc_set = (\<lambda>q r. Inl e)\<rparr>\<rparr> query val = False \<and>
   CacheService_init (Inl e) = Inl e"
  by (simp add: CacheService_get_def CacheService_set_def CacheService_init_def split: sum.splits)

subsection \<open>Search on a cache hit\<close>

lemma cached_matches_deserialized:
  "cached_matches env ms acc = Inr matches \<Longrightarrow>
   \<exists>new. matches = acc @ new \<and> deserialized env ms new"
proof (induction ms arbitrary: acc)
  case Nil
  then show ?case by (simp add: deserialized_def)
next
  case (Cons m ms)
  from Cons.prems obtain d r where m: "m = PDict d"
    and r: "SearchMatch env (dict_get d ''id'') (dict_get d ''metadata'') (dict_get d ''score'') = Inr r"
    and rest: "cached_matches env ms (acc @ [r]) = Inr matches"
    by (cases m) (auto simp: match_fields_def split: sum.splits)
  from Cons.IH [OF rest] obtain new where "matches = (acc @ [r]) @ new" "deserialized env ms new"
    by blast
  with m r have "matches = acc @ (r # new) \<and> deserialized env (m # ms) (r # new)"
    by (simp add: deserialized_def)
  then show ?case by blast
qed

lemma deserialized_cached_matches:
  "deserialized env ms new \<Longrightarrow> cached_matches env ms acc = Inr (acc @ new)"
proof (induction ms arbitrary: acc new)
  case Nil
  then show ?case by (simp add: deserialized_def)
next
  case (Cons m ms)
  from Cons.prems obtain r rest where new: "new = r # rest"
    and head: "(case m of PDict d \<Rightarrow> SearchMatch env (dict_get d ''id'') (dict_get d ''metadata'')
                               (dict_get d ''score'') = Inr r | _ \<Rightarrow> False)"
    and tail: "deserialized env ms rest"
    by (auto simp: deserialized_def list_all2_Cons1)
  from head obtain d where m: "m = PDict d"
    and r: "SearchMatch env (dict_get d ''id'') (dict_get d ''metadata'') (dict_get d ''score'') = Inr r"
    by (cases m) auto
  from Cons.IH [OF tail, of "acc @ [r]"] m r new show ?case
    by (simp add: match_fields_def)
qed

lemma cache_hit_never_touches_backends:
  "stored_response (CacheService_get cache_service (sr_query request)) = Some response \<Longrightarrow>
   snd (search_documents env cache_service request) = [CacheGet (sr_query request)]"
  by (simp add: search_documents_def Let_def split: sum.splits)

lemma cache_miss_embeds:
  "stored_response (CacheService_get cache_service (sr_query request)) = None \<Longrightarrow>
   list_ex touches_backend (snd (search_documents env cache_service request))"
  by (simp add: search_documents_def Let_def split: sum.splits prod.splits)

text \<open>
  C4. On a hit of the cache with a stored response that is not empty, the only call the
  request makes is the one on the cache: the embedding service and the index are never
  called; and when the stored response is the JSON of a list of match records that
  \<^verbatim>\<open>SearchMatch\<close> accepts, the answer is these matches in order, with
  \<^verbatim>\<open>total_results\<close> their number and \<^verbatim>\<open>query_rewritten\<close> null.
\<close>

theorem cache_hit_returns_stored_matches:
  assumes "CacheService_get cache_service (sr_query request) = Some v"
    and "result_data v = entry # rest"
    and "entry_response entry \<noteq> []"
  shows "snd (search_documents env cache_service request) = [CacheGet (sr_query request)] \<and>
     \<not> list_ex touches_backend (snd (search_documents env cache_service request)) \<and>
     (json_loads env (entry_response entry) = Inr (PList stored) \<and> deserialized env stored matches \<longrightarrow>
      fst (search_documents env cache_service request)
        = Inr \<lparr>results = matches, query_rewritten = None, total_results = length stored\<rparr>)"
proof -
  from assms have hit: "stored_response (CacheService_get cache_service (sr_query request))
      = Some (entry_response entry)"
    by (simp add: stored_response_def)
  have trace: "snd (search_documents env cache_service request) = [CacheGet (sr_query request)]"
    by (rule cache_hit_never_touches_backends [OF hit])
  have "fst (search_documents env cache_service request)
        = Inr \<lparr>results = matches, query_rewritten = None, total_results = length stored\<rparr>"
    if js: "json_loads env (entry_response entry) = Inr (PList stored)"
      and de: "deserialized env stored matches"
  proof -
    from de have len: "length matches = length stored"
      by (simp add: deserialized_def list_all2_lengthD)
    from deserialized_cached_matches [OF de, of "[]"]
    have cm: "cached_matches env stored [] = Inr matches" by simp
    show ?thesis
      by (simp add: search_documents_def Let_def hit js cm len)
  qed
  with trace show ?thesis by simp
qed

theorem cache_hit_returns_stored_matches_witness:
  "CacheService_get
     \<lparr>client = Some \<lparr>lc_search = (\<lambda>q. Inr (Some \<lparr>result_data = [\<lparr>entry_response = ''[stored]''\<rparr>]\<rparr>)),
                       lc_set = (\<lambda>q r. Inr ())\<rparr>\<rparr> ''red shoes''
     = Some \<lparr>result_data = [\<lparr>entry_response = ''[stored]''\<rparr>]\<rparr> \<and>
   deserialized
     \<lparr>json_loads = (\<lambda>s. Inr (PList [PDict [(''id'', PStr ''p1''), (''metadata'', PDict [(''type'', PStr ''recreational'')]),
                                           (''score'', PFloat ''0.9'')]])),
      SearchMatch = (\<lambda>i md sc. Inr (i, md, sc)),
      embed = (\<lambda>text. Inr [1 :: nat]),
      index_query = (\<lambda>v k ns. Inr [])\<rparr>
     [PDict [(''id'', PStr ''p1''), (''metadata'', PDict [(''type'', PStr ''recreational'')]), (''score'', PFloat ''0.9'')]]
     [(PStr ''p1'', PDict [(''type'', PStr ''recreational'')], PFloat ''0.9'')] \<and>
   search_documents
     \<lparr>json_loads = (\<lambda>s. Inr (PList [PDict [(''id'', PStr ''p1''), (''metadata'', PDict [(''type'', PStr ''recreational'')]),
                                           (''score'', PFloat ''0.9'')]])),
      SearchMatch = (\<lambda>i md sc. Inr (i, md, sc)),
      embed = (\<lambda>text. Inr [1 :: nat]),
      index_query = (\<lambda>v k ns. Inr [])\<rparr>
     \<lparr>client = Some \<lparr>lc_search = (\<lambda>q. Inr (Some \<lparr>result_data = [\<lparr>entry_response = ''[stored]''\<rparr>]\<rparr>)),
                       lc_set = (\<lambda>q r. Inr ())\<rparr>\<rparr>
     \<lparr>sr_query = ''red shoes'', sr_top_k = 5, sr_location_id = None, sr_namespace = Some PRODUCTS\<rparr>
   = (Inr \<lparr>results = [(PStr ''p1'', PDict [(''type'', PStr ''recreational'')], PFloat ''0.9'')],
            query_rewritten = None, total_results = 1\<rparr>,
      [CacheGet ''red shoes''])"
proof -
  let ?cache = "\<lparr>client = Some \<lparr>lc_search = (\<lambda>q. Inr (Some \<lparr>result_data = [\<lparr>entry_response = ''[stored]''\<rparr>]\<rparr>)),
                       lc_set = (\<lambda>q r. Inr ())\<rparr>\<rparr>"
  let ?env = "\<lparr>json_loads = (\<lambda>s. Inr (PList [PDict [(''id'', PStr ''p1''), (''metadata'', PDict [(''type'', PStr ''recreational'')]),
                                           (''score'', PFloat ''0.9'')]])),
      SearchMatch = (\<lambda>i md sc. Inr (i, md, sc)),
      embed = (\<lambda>text. Inr [1 :: nat]),
      index_query = (\<lambda>v k ns. Inr [])\<rparr>"
  let ?req = "\<lparr>sr_query = ''red shoes'', sr_top_k = 5, sr_location_id = None, sr_namespace = Some PRODUCTS\<rparr>"
  let ?v = "\<lparr>result_data = [\<lparr>entry_response = ''[stored]''\<rparr>]\<rparr>"
  let ?stored = "[PDict [(''id'', PStr ''p1''), (''metadata'', PDict [(''type'', PStr ''recreational'')]), (''score'', PFloat ''0.9'')]]"
  let ?matches = "[(PStr ''p1'', PDict [(''type'', PStr ''recreational'')], PFloat ''0.9'')]"
  have get: "CacheService_get ?cache (sr_query ?req) = Some ?v"
    by (simp add: CacheService_get_def)
  have data: "result_data ?v = \<lparr>entry_response = ''[stored]''\<rparr> # []" by simp
  have resp: "entry_response \<lparr>entry_response = ''[stored]''\<rparr> \<noteq> []" by simp
  have js: "json_loads ?env (entry_response \<lparr>entry_response = ''[stored]''\<rparr>) = Inr (PList ?stored)"
    by simp
  have de: "deserialized ?env ?stored ?matches"
    by (simp add: deserialized_def dict_get_def)
  note th = cache_hit_returns_stored_matches [OF get data resp, where env = ?env and stored = ?stored
      and matches = ?matches]
  from th js de have f: "fst (search_documents ?env ?cache ?req)
      = Inr \<lparr>results = ?matches, query_rewritten = None, total_results = length ?stored\<rparr>"
    by blast
  from th have s: "snd (search_documents ?env ?cache ?req) = [CacheGet ''red shoes'']"
    by simp
  have "search_documents ?env ?cache ?req
      = (Inr \<lparr>results = ?matches, query_rewritten = None, total_results = 1\<rparr>, [CacheGet ''red shoes''])"
    using f s by (cases "search_documents ?env ?cache ?req") simp
  with get de show ?thesis by simp
qed

end
